theory Spec2Isabelle
  imports Complex_Main "HOL-Library.Sublist"
begin

section \<open>Python strings\<close>

text \<open>
  A Python \<open>str\<close> is a sequence of code points. The model works on the code points
  0..255 (Latin-1), which cover every literal of the sources except the en dash of one
  character class; a \<^typ>\<open>char\<close> stands for the code point of the same number. The
  character classes below are those of \<open>str.isspace\<close>, \<open>str.isdigit\<close> and
  \<open>str.lower\<close> on that range.
\<close>

definition py_isspace :: "char \<Rightarrow> bool" where
  "py_isspace c \<longleftrightarrow> c \<in> set [CHR 0x09, CHR 0x0A, CHR 0x0B, CHR 0x0C, CHR 0x0D,
     CHR 0x1C, CHR 0x1D, CHR 0x1E, CHR 0x1F, CHR 0x20, CHR 0x85, CHR 0xA0]"

definition ascii_digit :: "char \<Rightarrow> bool" where
  "ascii_digit c \<longleftrightarrow> c \<in> set ''0123456789''"

definition py_isdigit_char :: "char \<Rightarrow> bool" where
  "py_isdigit_char c \<longleftrightarrow> ascii_digit c \<or> c \<in> set [CHR 0xB2, CHR 0xB3, CHR 0xB9]"

definition py_isdigit :: "string \<Rightarrow> bool" where
  "py_isdigit s \<longleftrightarrow> s \<noteq> [] \<and> list_all py_isdigit_char s"

definition upper_chars :: string where
  "upper_chars = ''ABCDEFGHIJKLMNOPQRSTUVWXYZ'' @
     [CHR 0xC0, CHR 0xC1, CHR 0xC2, CHR 0xC3, CHR 0xC4, CHR 0xC5, CHR 0xC6, CHR 0xC7, CHR 0xC8, CHR 0xC9, CHR 0xCA, CHR 0xCB, CHR 0xCC, CHR 0xCD, CHR 0xCE, CHR 0xCF, CHR 0xD0, CHR 0xD1, CHR 0xD2, CHR 0xD3, CHR 0xD4, CHR 0xD5, CHR 0xD6, CHR 0xD8, CHR 0xD9, CHR 0xDA, CHR 0xDB, CHR 0xDC, CHR 0xDD, CHR 0xDE]"

definition lower_chars :: string where
  "lower_chars = ''abcdefghijklmnopqrstuvwxyz'' @
     [CHR 0xE0, CHR 0xE1, CHR 0xE2, CHR 0xE3, CHR 0xE4, CHR 0xE5, CHR 0xE6, CHR 0xE7, CHR 0xE8, CHR 0xE9, CHR 0xEA, CHR 0xEB, CHR 0xEC, CHR 0xED, CHR 0xEE, CHR 0xEF, CHR 0xF0, CHR 0xF1, CHR 0xF2, CHR 0xF3, CHR 0xF4, CHR 0xF5, CHR 0xF6, CHR 0xF8, CHR 0xF9, CHR 0xFA, CHR 0xFB, CHR 0xFC, CHR 0xFD, CHR 0xFE]"

definition lower_char :: "char \<Rightarrow> char" where
  "lower_char c = (case map_of (zip upper_chars lower_chars) c of None \<Rightarrow> c | Some d \<Rightarrow> d)"

definition py_lower :: "string \<Rightarrow> string" where
  "py_lower s = map lower_char s"

definition py_strip :: "string \<Rightarrow> string" where
  "py_strip s = rev (dropWhile py_isspace (rev (dropWhile py_isspace s)))"

text \<open>\<open>s.split()\<close>: the maximal runs of non-whitespace characters.\<close>

fun split_ws_acc :: "string \<Rightarrow> string \<Rightarrow> string list" where
  "split_ws_acc cur [] = (if cur = [] then [] else [cur])"
| "split_ws_acc cur (c # cs) =
     (if py_isspace c then (if cur = [] then split_ws_acc [] cs else cur # split_ws_acc [] cs)
      else split_ws_acc (cur @ [c]) cs)"

definition py_split_ws :: "string \<Rightarrow> string list" where
  "py_split_ws s = split_ws_acc [] s"

text \<open>\<open>s.split(sep)\<close> for a one-character separator: never the empty list.\<close>

fun py_split :: "char \<Rightarrow> string \<Rightarrow> string list" where
  "py_split sep [] = [[]]"
| "py_split sep (c # cs) =
     (if c = sep then [] # py_split sep cs
      else (case py_split sep cs of [] \<Rightarrow> [[c]] | x # xs \<Rightarrow> (c # x) # xs))"

fun py_join :: "string \<Rightarrow> string list \<Rightarrow> string" where
  "py_join sep [] = []"
| "py_join sep [x] = x"
| "py_join sep (x # y # ys) = x @ sep @ py_join sep (y # ys)"

text \<open>\<open>s.replace(old, new)\<close>: left to right, occurrences do not overlap.\<close>

function py_replace :: "string \<Rightarrow> string \<Rightarrow> string \<Rightarrow> string" where
  "py_replace old new [] = []"
| "py_replace old new (c # cs) =
     (if old \<noteq> [] \<and> prefix old (c # cs)
      then new @ py_replace old new (drop (length old) (c # cs))
      else c # py_replace old new cs)"
  by pat_completeness auto
termination
  by (relation "measure (\<lambda>(old, new, s). length s)") auto

text \<open>\<open>sub in s\<close>.\<close>

fun py_in :: "string \<Rightarrow> string \<Rightarrow> bool" where
  "py_in sub [] \<longleftrightarrow> sub = []"
| "py_in sub (c # cs) \<longleftrightarrow> prefix sub (c # cs) \<or> py_in sub cs"

text \<open>\<open>xs[:n]\<close>: a negative bound counts from the end.\<close>

definition py_take :: "int \<Rightarrow> 'a list \<Rightarrow> 'a list" where
  "py_take n xs = (if 0 \<le> n then take (nat n) xs else take (length xs - nat (- n)) xs)"

text \<open>\<open>str(n)\<close> for an integer.\<close>

definition digit_char :: "nat \<Rightarrow> char" where
  "digit_char d = ''0123456789'' ! d"

function show_nat :: "nat \<Rightarrow> string" where
  "show_nat n = (if n < 10 then [digit_char n] else show_nat (n div 10) @ [digit_char (n mod 10)])"
  by pat_completeness auto
termination
  by (relation "measure id") auto

definition show_int :: "int \<Rightarrow> string" where
  "show_int i = (if i < 0 then CHR ''-'' # show_nat (nat (- i)) else show_nat (nat i))"

section \<open>Settings (config.py)\<close>

record settings =
  MAX_RETRIES :: int
  ENTITIES :: "string list"
  VALID_RESULTS :: "string list"
  MIN_SUMMARY_LINES :: int
  MAX_SUMMARY_LINES :: int

definition CSV_FIELDS :: "string list" where
  "CSV_FIELDS = [''autor'', ''reu'', ''assunto_principal'', ''tipo_decisao'', ''resultado'',
     ''resumo_5_linhas'', ''data_decisao'', ''tribunal'']"

definition default_settings :: settings where
  "default_settings = \<lparr>
     MAX_RETRIES = 5,
     ENTITIES = [''autor'', ''reu'', ''assunto_principal'', ''tipo_decisao'', ''resultado'',
       ''resumo_5_linhas'', ''data_decisao'', ''tribunal''],
     VALID_RESULTS = [''granted'', ''denied'', ''dismissed'', ''allowed'', ''rejected'',
       ''deferido'', ''indeferido'', ''procedente'', ''improcedente'', ''arquivado''],
     MIN_SUMMARY_LINES = 1,
     MAX_SUMMARY_LINES = 5 \<rparr>"

section \<open>EntityValidator (validator.py)\<close>

text \<open>
  A field value is \<open>None\<close> or a string. A mapping of fields is a dict from field name to
  such a value: looking a key up gives \<open>None\<close> when the key is missing and
  \<open>Some None\<close> when it holds Python's \<open>None\<close>.
\<close>

type_synonym fieldval = "string option"
type_synonym entities = "string \<rightharpoonup> fieldval"
type_synonym vresult = "bool \<times> fieldval \<times> string"

text \<open>The guard \<open>not value or value.lower() in ['null', 'none', 'n/a']\<close>.\<close>

definition is_placeholder :: "fieldval \<Rightarrow> bool" where
  "is_placeholder v \<longleftrightarrow> (case v of None \<Rightarrow> True
     | Some s \<Rightarrow> s = [] \<or> py_lower s \<in> set [''null'', ''none'', ''n/a''])"

definition collapse_ws :: "string \<Rightarrow> string" where
  "collapse_ws s = py_join '' '' (py_split_ws s)"

definition validate_party_name :: "fieldval \<Rightarrow> vresult" where
  "validate_party_name value =
     (if is_placeholder value then (True, None, [])
      else let normalized = collapse_ws (the value) in
        if length normalized < 2 then (False, None, ''Nome muito curto'')
        else if py_isdigit (py_replace '' '' [] normalized)
          then (False, None, ''Nome n'' @ [CHR 0xE3] @ ''o pode ser apenas n'' @ [CHR 0xFA] @ ''meros'')
        else (True, Some normalized, []))"

definition validate_subject :: "fieldval \<Rightarrow> vresult" where
  "validate_subject value =
     (if is_placeholder value then (True, None, [])
      else let normalized = collapse_ws (the value) in
        if length normalized < 3 then (False, None, ''Assunto muito curto'')
        else (True, Some normalized, []))"

text \<open>The vocabulary test of the decision type only decides a log line.\<close>

definition validate_decision_type :: "fieldval \<Rightarrow> vresult" where
  "validate_decision_type value =
     (if is_placeholder value then (True, None, [])
      else (True, value, []))"

definition validate_result :: "settings \<Rightarrow> fieldval \<Rightarrow> vresult" where
  "validate_result cfg value =
     (if is_placeholder value then (True, None, [])
      else let normalized = py_lower (the value);
               contains_valid = list_ex (\<lambda>valid_result. py_in valid_result normalized)
                                  (map py_lower (VALID_RESULTS cfg)) in
        if \<not> contains_valid
          then (False, None, ''Resultado inv'' @ [CHR 0xE1] @ ''lido. Esperado um de: ''
                              @ py_join '', '' (VALID_RESULTS cfg))
        else (True, value, []))"

definition summary_lines :: "string \<Rightarrow> string list" where
  "summary_lines value = map py_strip (filter (\<lambda>line. py_strip line \<noteq> []) (py_split CHR 0x0A value))"

definition validate_summary :: "settings \<Rightarrow> fieldval \<Rightarrow> vresult" where
  "validate_summary cfg value =
     (if is_placeholder value then (False, None, ''Resumo '' @ [CHR 0xE9] @ '' obrigat'' @ [CHR 0xF3] @ ''rio'')
      else let lines = summary_lines (the value); num_lines = int (length lines) in
        if num_lines < MIN_SUMMARY_LINES cfg
          then (False, None, ''Resumo muito curto (m'' @ [CHR 0xED] @ ''nimo ''
                              @ show_int (MIN_SUMMARY_LINES cfg) @ '' linha)'')
        else if num_lines > MAX_SUMMARY_LINES cfg
          then (True, Some (py_join [CHR 0x0A] (py_take (MAX_SUMMARY_LINES cfg) lines)), [])
        else (True, value, []))"

definition validate_court :: "fieldval \<Rightarrow> vresult" where
  "validate_court value =
     (if is_placeholder value then (True, None, [])
      else let normalized = collapse_ws (the value) in
        if length normalized < 3 then (False, None, ''Nome do tribunal muito curto'')
        else (True, Some normalized, []))"

text \<open>
  \<open>calculate_completeness\<close>: the quotient is a float in the source; the numerator is at
  most the number of entities, and for the eight entities of the configuration every
  quotient \<open>k / 8\<close> is exact in binary floating point, so a rational models it.
\<close>

definition is_filled :: "entities \<Rightarrow> string \<Rightarrow> bool" where
  "is_filled ents key \<longleftrightarrow> (case ents key of
       Some (Some s) \<Rightarrow> s \<noteq> [] \<and> py_lower s \<notin> set [''null'', ''none'', ''n/a'', '''']
     | _ \<Rightarrow> False)"

definition calculate_completeness :: "settings \<Rightarrow> entities \<Rightarrow> rat" where
  "calculate_completeness cfg ents =
     (let total_fields = length (ENTITIES cfg);
          filled_fields = length (filter (is_filled ents) (ENTITIES cfg))
      in if total_fields > 0 then of_nat filled_fields / of_nat total_fields else 0)"

section \<open>Regular expressions (the fragment of Python's \<open>re\<close> that the sources use)\<close>

text \<open>
  A backtracking matcher is determined by the list of all the ways a pattern can match at
  a position, in the order in which backtracking tries them: the first one is the match
  that \<open>re\<close> reports. A position is the text before it (reversed), the text after it,
  and the groups captured so far. Repetition is only ever applied to a character class in
  the sources, so \<open>Rep greedy lo hi p\<close> stands for \<open>p{lo,hi}\<close> (greedy) or
  \<open>p{lo,hi}?\<close> (lazy), \<open>hi = None\<close> for no upper bound.
\<close>

datatype regex =
    Chr "char \<Rightarrow> bool"
  | Eps
  | Seq regex regex
  | Alt regex regex
  | Rep bool nat "nat option" "char \<Rightarrow> bool"
  | Grp string regex
  | Ahead regex
  | Behind "(char \<Rightarrow> bool) list"
  | Bol
  | Eos
  | WordB

type_synonym groups = "(string \<times> string) list"
type_synonym mstate = "string \<times> string \<times> groups"

text \<open>\<open>\w\<close> on the code points 0..255.\<close>

definition is_word_char :: "char \<Rightarrow> bool" where
  "is_word_char c \<longleftrightarrow> c \<in> set (''0123456789ABCDEFGHIJKLMNOPQRSTUVWXYZ_abcdefghijklmnopqrstuvwxyz'' @
     [CHR 0xAA, CHR 0xB2, CHR 0xB3, CHR 0xB5, CHR 0xB9, CHR 0xBA, CHR 0xBC, CHR 0xBD, CHR 0xBE, CHR 0xC0, CHR 0xC1, CHR 0xC2, CHR 0xC3, CHR 0xC4, CHR 0xC5, CHR 0xC6, CHR 0xC7, CHR 0xC8, CHR 0xC9, CHR 0xCA, CHR 0xCB, CHR 0xCC, CHR 0xCD, CHR 0xCE, CHR 0xCF, CHR 0xD0, CHR 0xD1, CHR 0xD2, CHR 0xD3, CHR 0xD4, CHR 0xD5, CHR 0xD6, CHR 0xD8, CHR 0xD9, CHR 0xDA, CHR 0xDB, CHR 0xDC, CHR 0xDD, CHR 0xDE, CHR 0xDF, CHR 0xE0, CHR 0xE1, CHR 0xE2, CHR 0xE3, CHR 0xE4, CHR 0xE5, CHR 0xE6, CHR 0xE7, CHR 0xE8, CHR 0xE9, CHR 0xEA, CHR 0xEB, CHR 0xEC, CHR 0xED, CHR 0xEE, CHR 0xEF, CHR 0xF0, CHR 0xF1, CHR 0xF2, CHR 0xF3, CHR 0xF4, CHR 0xF5, CHR 0xF6, CHR 0xF8, CHR 0xF9, CHR 0xFA, CHR 0xFB, CHR 0xFC, CHR 0xFD, CHR 0xFE, CHR 0xFF])"

fun rmatch :: "regex \<Rightarrow> mstate \<Rightarrow> mstate list" where
  "rmatch (Chr p) (b, a, g) = (case a of [] \<Rightarrow> [] | c # cs \<Rightarrow> if p c then [(c # b, cs, g)] else [])"
| "rmatch Eps st = [st]"
| "rmatch (Seq r1 r2) st = concat (map (rmatch r2) (rmatch r1 st))"
| "rmatch (Alt r1 r2) st = rmatch r1 st @ rmatch r2 st"
| "rmatch (Rep greedy lo hi p) (b, a, g) =
     (let most = length (takeWhile p a);
          k = (case hi of None \<Rightarrow> most | Some h \<Rightarrow> min h most);
          counts = (if greedy then rev [lo..<Suc k] else [lo..<Suc k])
      in map (\<lambda>j. (rev (take j a) @ b, drop j a, g)) counts)"
| "rmatch (Grp n r) (b, a, g) =
     map (\<lambda>(b', a', g'). (b', a', (n, take (length a - length a') a) # g')) (rmatch r (b, a, g))"
| "rmatch (Ahead r) st = (if rmatch r st = [] then [] else [st])"
| "rmatch (Behind ps) (b, a, g) =
     (if length ps \<le> length b \<and> list_all2 (\<lambda>p c. p c) (rev ps) (take (length ps) b)
      then [(b, a, g)] else [])"
| "rmatch Bol (b, a, g) = (if b = [] then [(b, a, g)] else [])"
| "rmatch Eos (b, a, g) = (if a = [] then [(b, a, g)] else [])"
| "rmatch WordB (b, a, g) =
     (let wb = (case b of [] \<Rightarrow> False | c # _ \<Rightarrow> is_word_char c);
          wa = (case a of [] \<Rightarrow> False | c # _ \<Rightarrow> is_word_char c)
      in if wb \<noteq> wa then [(b, a, g)] else [])"

text \<open>A match object: where the match starts and ends, and its groups.\<close>

record rematch =
  m_start :: nat
  m_end :: nat
  m_groups :: groups

definition first_match :: "regex \<Rightarrow> string \<Rightarrow> string \<Rightarrow> rematch option" where
  "first_match r b a = (case rmatch r (b, a, []) of [] \<Rightarrow> None
     | (b', a', g) # _ \<Rightarrow> Some \<lparr> m_start = length b, m_end = length b', m_groups = g \<rparr>)"

text \<open>\<open>re.match\<close>: at the start of the string only.\<close>

definition re_match :: "regex \<Rightarrow> string \<Rightarrow> rematch option" where
  "re_match r s = first_match r [] s"

text \<open>\<open>re.search\<close>: the leftmost position with a match.\<close>

fun search_from :: "regex \<Rightarrow> string \<Rightarrow> string \<Rightarrow> rematch option" where
  "search_from r b [] = first_match r b []"
| "search_from r b (c # cs) = (case first_match r b (c # cs) of
       Some m \<Rightarrow> Some m
     | None \<Rightarrow> search_from r (c # b) cs)"

definition re_search :: "regex \<Rightarrow> string \<Rightarrow> rematch option" where
  "re_search r s = search_from r [] s"

text \<open>\<open>m.group(n)\<close>: \<open>None\<close> when the group took no part in the match.\<close>

definition group :: "rematch \<Rightarrow> string \<Rightarrow> string option" where
  "group m n = map_of (m_groups m) n"

definition group0 :: "rematch \<Rightarrow> string \<Rightarrow> string" where
  "group0 m s = take (m_end m - m_start m) (drop (m_start m) s)"

text \<open>Pattern syntax: a literal, a literal under \<open>IGNORECASE\<close>, a set of characters.\<close>

definition ci :: "char \<Rightarrow> char \<Rightarrow> bool" where
  "ci c d \<longleftrightarrow> lower_char d = lower_char c"

definition one_of :: "string \<Rightarrow> char \<Rightarrow> bool" where
  "one_of cs d \<longleftrightarrow> d \<in> set cs"

fun seqs :: "regex list \<Rightarrow> regex" where
  "seqs [] = Eps"
| "seqs [r] = r"
| "seqs (r # rs) = Seq r (seqs rs)"

fun alts :: "regex list \<Rightarrow> regex" where
  "alts [] = Chr (\<lambda>_. False)"
| "alts [r] = r"
| "alts (r # rs) = Alt r (alts rs)"

definition lit :: "string \<Rightarrow> regex" where
  "lit s = seqs (map (\<lambda>c. Chr ((=) c)) s)"

definition lit_ci :: "string \<Rightarrow> regex" where
  "lit_ci s = seqs (map (\<lambda>c. Chr (ci c)) s)"

section \<open>Dates (\<open>datetime.strptime\<close> and \<open>strftime\<close>)\<close>

text \<open>
  \<open>strptime\<close> turns the format into a regular expression, compiled with
  \<open>IGNORECASE\<close>: a directive becomes its named group, a run of whitespace becomes
  \<open>\s+\<close>, any other character stands for itself. Only the directives of the
  validator's formats are given; month names are those of the C locale, the longest
  first, as the library sorts them.
\<close>

definition month_names :: "string list" where
  "month_names = [''january'', ''february'', ''march'', ''april'', ''may'', ''june'', ''july'',
     ''august'', ''september'', ''october'', ''november'', ''december'']"

definition directive :: "char \<Rightarrow> regex" where
  "directive d =
     (if d = CHR ''d'' then Grp ''d'' (alts [
          Seq (Chr ((=) CHR ''3'')) (Chr (one_of ''01'')),
          Seq (Chr (one_of ''12'')) (Chr ascii_digit),
          Seq (Chr ((=) CHR ''0'')) (Chr (one_of ''123456789'')),
          Chr (one_of ''123456789''),
          Seq (Chr ((=) CHR '' '')) (Chr (one_of ''123456789''))])
      else if d = CHR ''m'' then Grp ''m'' (alts [
          Seq (Chr ((=) CHR ''1'')) (Chr (one_of ''012'')),
          Seq (Chr ((=) CHR ''0'')) (Chr (one_of ''123456789'')),
          Chr (one_of ''123456789'')])
      else if d = CHR ''Y'' then Grp ''Y'' (seqs [Chr ascii_digit, Chr ascii_digit, Chr ascii_digit, Chr ascii_digit])
      else if d = CHR ''B'' then Grp ''B'' (alts (map lit_ci
          [''september'', ''february'', ''november'', ''december'', ''january'', ''october'',
           ''august'', ''march'', ''april'', ''june'', ''july'', ''may'']))
      else Chr (\<lambda>_. False))"

function time_re :: "string \<Rightarrow> regex" where
  "time_re [] = Eps"
| "time_re (c # cs) =
     (if c = CHR ''%'' then (case cs of [] \<Rightarrow> Chr (\<lambda>_. False) | d # rest \<Rightarrow> Seq (directive d) (time_re rest))
      else if py_isspace c then Seq (Rep True 1 None py_isspace) (time_re (dropWhile py_isspace cs))
      else Seq (Chr (ci c)) (time_re cs))"
  by pat_completeness auto
termination
  by (relation "measure length") (auto simp: length_dropWhile_le less_Suc_eq_le)

record date =
  year :: nat
  month :: nat
  day :: nat

definition isleap :: "nat \<Rightarrow> bool" where
  "isleap y \<longleftrightarrow> y mod 4 = 0 \<and> (y mod 100 \<noteq> 0 \<or> y mod 400 = 0)"

definition days_in_month :: "nat \<Rightarrow> nat \<Rightarrow> nat" where
  "days_in_month y m =
     (if m = 2 then (if isleap y then 29 else 28)
      else if m \<in> set [4, 6, 9, 11] then 30 else 31)"

text \<open>The checks of the \<open>date\<close> constructor (\<open>MINYEAR = 1\<close>, \<open>MAXYEAR = 9999\<close>).\<close>

definition valid_date :: "nat \<Rightarrow> nat \<Rightarrow> nat \<Rightarrow> bool" where
  "valid_date y m d \<longleftrightarrow> 1 \<le> y \<and> y \<le> 9999 \<and> 1 \<le> m \<and> m \<le> 12 \<and> 1 \<le> d \<and> d \<le> days_in_month y m"

text \<open>\<open>int(s)\<close> on the text of a numeric group: digits, possibly after a blank.\<close>

fun index_of :: "'a \<Rightarrow> 'a list \<Rightarrow> nat" where
  "index_of x [] = 0"
| "index_of x (y # ys) = (if x = y then 0 else Suc (index_of x ys))"

definition digit_val :: "char \<Rightarrow> nat" where
  "digit_val c = index_of c ''0123456789''"

definition py_int :: "string \<Rightarrow> nat" where
  "py_int s = foldl (\<lambda>n c. 10 * n + digit_val c) 0 (py_strip s)"

text \<open>
  \<open>strptime(data, fmt)\<close>: \<open>None\<close> stands for the \<open>ValueError\<close> of a string that does
  not match, of unconverted data after the match and of a date that does not exist.
  A missing directive defaults to 1900, January, the 1st.
\<close>

definition strptime :: "string \<Rightarrow> string \<Rightarrow> date option" where
  "strptime data fmt = (case re_match (time_re fmt) data of
       None \<Rightarrow> None
     | Some found \<Rightarrow>
         if m_end found \<noteq> length data then None
         else let y = (case group found ''Y'' of Some t \<Rightarrow> py_int t | None \<Rightarrow> 1900);
                  m = (case group found ''m'' of Some t \<Rightarrow> py_int t
                       | None \<Rightarrow> (case group found ''B'' of
                             Some t \<Rightarrow> Suc (index_of (py_lower t) month_names) | None \<Rightarrow> 1));
                  d = (case group found ''d'' of Some t \<Rightarrow> py_int t | None \<Rightarrow> 1)
              in if valid_date y m d then Some \<lparr> year = y, month = m, day = d \<rparr> else None)"

text \<open>\<open>s.zfill(width)\<close> on a string without sign.\<close>

definition zfill :: "nat \<Rightarrow> string \<Rightarrow> string" where
  "zfill w s = replicate (w - length s) CHR ''0'' @ s"

text \<open>
  \<open>strftime('%d/%m/%Y')\<close>. The C library renders \<open>%Y\<close>: with four digits on some
  platforms, without padding on others (glibc), which shows for years before 1000 only.
  \<open>pad\<close> says which.
\<close>

definition strftime_dmY :: "bool \<Rightarrow> date \<Rightarrow> string" where
  "strftime_dmY pad dt = zfill 2 (show_nat (day dt)) @ ''/'' @ zfill 2 (show_nat (month dt)) @ ''/''
     @ (if pad then zfill 4 (show_nat (year dt)) else show_nat (year dt))"

definition date_formats :: "string list" where
  "date_formats = [''%d/%m/%Y'', ''%d-%m-%Y'', ''%Y-%m-%d'', ''%d.%m.%Y'', ''%d %B %Y'', ''%B %d, %Y'']"

text \<open>The loop over the formats: the first one that parses.\<close>

fun first_format :: "string \<Rightarrow> string list \<Rightarrow> date option" where
  "first_format v [] = None"
| "first_format v (fmt # fmts) = (case strptime v fmt of Some dt \<Rightarrow> Some dt | None \<Rightarrow> first_format v fmts)"

text \<open>\<open>(\d{1,2})[\/\-\.](\d{1,2})[\/\-\.](\d{4})\<close>\<close>

definition date_pattern :: regex where
  "date_pattern = seqs [Grp ''1'' (Rep True 1 (Some 2) ascii_digit), Chr (one_of ''/-.''),
     Grp ''2'' (Rep True 1 (Some 2) ascii_digit), Chr (one_of ''/-.''),
     Grp ''3'' (Rep True 4 (Some 4) ascii_digit)]"

definition validate_date :: "bool \<Rightarrow> fieldval \<Rightarrow> vresult" where
  "validate_date pad value =
     (if is_placeholder value then (True, None, [])
      else case first_format (the value) date_formats of
          Some date_obj \<Rightarrow> (True, Some (strftime_dmY pad date_obj), [])
        | None \<Rightarrow> (case re_search date_pattern (the value) of
              Some m \<Rightarrow> (True, Some (zfill 2 (the (group m ''1'')) @ ''/'' @ zfill 2 (the (group m ''2''))
                                      @ ''/'' @ the (group m ''3'')), [])
            | None \<Rightarrow> (True, value, [])))"

text \<open>
  \<open>validate\<close>: the validators run in the order of the dict literal, each on the field
  if the mapping has it; a failure appends \<open>field: error\<close>, and the normalised value is
  stored in either case.
\<close>

definition validators :: "settings \<Rightarrow> bool \<Rightarrow> (string \<times> (fieldval \<Rightarrow> vresult)) list" where
  "validators cfg pad = [
     (''autor'', validate_party_name),
     (''reu'', validate_party_name),
     (''assunto_principal'', validate_subject),
     (''tipo_decisao'', validate_decision_type),
     (''resultado'', validate_result cfg),
     (''resumo_5_linhas'', validate_summary cfg),
     (''data_decisao'', validate_date pad),
     (''tribunal'', validate_court)]"

fun validate_loop :: "(string \<times> (fieldval \<Rightarrow> vresult)) list \<Rightarrow> entities \<Rightarrow> string list
    \<Rightarrow> entities \<times> string list" where
  "validate_loop [] validated errors = (validated, errors)"
| "validate_loop ((field, validator) # rest) validated errors =
     (case validated field of
        None \<Rightarrow> validate_loop rest validated errors
      | Some v \<Rightarrow> (case validator v of (is_valid, normalized_value, error) \<Rightarrow>
          validate_loop rest (validated(field \<mapsto> normalized_value))
            (if \<not> is_valid then errors @ [field @ '': '' @ error] else errors)))"

definition validate :: "settings \<Rightarrow> bool \<Rightarrow> entities \<Rightarrow> bool \<times> entities \<times> string list" where
  "validate cfg pad ents = (case validate_loop (validators cfg pad) ents [] of
     (validated, errors) \<Rightarrow> (errors = [], validated, errors))"

text \<open>\<open>entities.get(key)\<close>\<close>

definition dict_get :: "entities \<Rightarrow> string \<Rightarrow> fieldval" where
  "dict_get ents key = (case ents key of None \<Rightarrow> None | Some v \<Rightarrow> v)"

text \<open>The shape \<open>DD/MM/YYYY\<close>: two digits, a slash, two digits, a slash, four digits.\<close>

definition is_ddmmyyyy :: "string \<Rightarrow> bool" where
  "is_ddmmyyyy s \<longleftrightarrow> length s = 10 \<and> s ! 2 = CHR ''/'' \<and> s ! 5 = CHR ''/''
     \<and> list_all ascii_digit (take 2 s @ take 2 (drop 3 s) @ drop 6 s)"

section \<open>The \<open>csv\<close> module (excel dialect)\<close>

text \<open>
  \<open>csv.writer\<close> with the default dialect: a field is quoted when it holds the delimiter,
  the quote character or a character of the line terminator; quotes are doubled; a row
  of one empty field is written as a pair of quotes; the terminator is \<open>\r\n\<close>.
\<close>

definition needs_quote :: "char \<Rightarrow> bool" where
  "needs_quote c \<longleftrightarrow> c = CHR '','' \<or> c = CHR 0x22 \<or> c = CHR 0x0D \<or> c = CHR 0x0A"

definition csv_quote_field :: "string \<Rightarrow> string" where
  "csv_quote_field f =
     (if list_ex needs_quote f
      then [CHR 0x22] @ concat (map (\<lambda>c. if c = CHR 0x22 then [c, c] else [c]) f) @ [CHR 0x22]
      else f)"

definition csv_writerow :: "string list \<Rightarrow> string" where
  "csv_writerow row =
     (if row = [[]] then [CHR 0x22, CHR 0x22] else py_join '','' (map csv_quote_field row))
     @ [CHR 0x0D, CHR 0x0A]"

text \<open>
  \<open>csv.reader\<close>: the state machine of \<open>parse_process_char\<close>, without the states of
  an escape character (the dialect has none). \<open>None\<close> as a character is the end of a
  line; \<open>None\<close> as a result is \<open>csv.Error\<close>.
\<close>

datatype csv_state = START_RECORD | START_FIELD | IN_FIELD | IN_QUOTED_FIELD
  | QUOTE_IN_QUOTED_FIELD | EAT_CRNL

record reader =
  rstate :: csv_state
  rfields :: "string list"
  rfield :: string

definition field_limit :: int where
  "field_limit = 131072"

definition parse_save_field :: "reader \<Rightarrow> csv_state \<Rightarrow> reader" where
  "parse_save_field r st = \<lparr> rstate = st, rfields = rfields r @ [rfield r], rfield = [] \<rparr>"

definition parse_add_char :: "reader \<Rightarrow> char \<Rightarrow> csv_state \<Rightarrow> reader option" where
  "parse_add_char r c st =
     (if field_limit \<le> int (length (rfield r)) then None
      else Some \<lparr> rstate = st, rfields = rfields r, rfield = rfield r @ [c] \<rparr>)"

definition is_crnl :: "char \<Rightarrow> bool" where
  "is_crnl c \<longleftrightarrow> c = CHR 0x0A \<or> c = CHR 0x0D"

definition start_field :: "reader \<Rightarrow> char option \<Rightarrow> reader option" where
  "start_field r c = (case c of
       None \<Rightarrow> Some (parse_save_field r START_RECORD)
     | Some ch \<Rightarrow>
         if is_crnl ch then Some (parse_save_field r EAT_CRNL)
         else if ch = CHR 0x22 then Some (r\<lparr>rstate := IN_QUOTED_FIELD\<rparr>)
         else if ch = CHR '','' then Some (parse_save_field r START_FIELD)
         else parse_add_char r ch IN_FIELD)"

definition parse_process_char :: "reader \<Rightarrow> char option \<Rightarrow> reader option" where
  "parse_process_char r c = (case rstate r of
       START_RECORD \<Rightarrow> (case c of
           None \<Rightarrow> Some r
         | Some ch \<Rightarrow> if is_crnl ch then Some (r\<lparr>rstate := EAT_CRNL\<rparr>) else start_field r c)
     | START_FIELD \<Rightarrow> start_field r c
     | IN_FIELD \<Rightarrow> (case c of
           None \<Rightarrow> Some (parse_save_field r START_RECORD)
         | Some ch \<Rightarrow>
             if is_crnl ch then Some (parse_save_field r EAT_CRNL)
             else if ch = CHR '','' then Some (parse_save_field r START_FIELD)
             else parse_add_char r ch IN_FIELD)
     | IN_QUOTED_FIELD \<Rightarrow> (case c of
           None \<Rightarrow> Some r
         | Some ch \<Rightarrow>
             if ch = CHR 0x22 then Some (r\<lparr>rstate := QUOTE_IN_QUOTED_FIELD\<rparr>)
             else parse_add_char r ch IN_QUOTED_FIELD)
     | QUOTE_IN_QUOTED_FIELD \<Rightarrow> (case c of
           None \<Rightarrow> Some (parse_save_field r START_RECORD)
         | Some ch \<Rightarrow>
             if ch = CHR 0x22 then parse_add_char r ch IN_QUOTED_FIELD
             else if ch = CHR '','' then Some (parse_save_field r START_FIELD)
             else if is_crnl ch then Some (parse_save_field r EAT_CRNL)
             else parse_add_char r ch IN_FIELD)
     | EAT_CRNL \<Rightarrow> (case c of
           None \<Rightarrow> Some (r\<lparr>rstate := START_RECORD\<rparr>)
         | Some ch \<Rightarrow> if is_crnl ch then Some r else None))"

text \<open>The characters of one line, then the end-of-line mark.\<close>

fun process_chars :: "reader \<Rightarrow> string \<Rightarrow> reader option" where
  "process_chars r [] = parse_process_char r None"
| "process_chars r (c # cs) = (case parse_process_char r (Some c) of
       None \<Rightarrow> None
     | Some r' \<Rightarrow> process_chars r' cs)"

text \<open>
  \<open>Reader_iternext\<close>: lines are consumed until the machine is back at the start of a
  record. The result is \<open>Inl ()\<close> for \<open>csv.Error\<close>, else the row (\<open>None\<close> for
  \<open>StopIteration\<close>) and the lines left. At the end of the input an open field still
  makes a row.
\<close>

fun reader_loop :: "reader \<Rightarrow> string list \<Rightarrow> unit + (string list option \<times> string list)" where
  "reader_loop r [] =
     (if rfield r \<noteq> [] \<or> rstate r = IN_QUOTED_FIELD
      then Inr (Some (rfields (parse_save_field r (rstate r))), [])
      else Inr (None, []))"
| "reader_loop r (line # lines) = (case process_chars r line of
       None \<Rightarrow> Inl ()
     | Some r' \<Rightarrow> if rstate r' = START_RECORD then Inr (Some (rfields r'), lines)
                 else reader_loop r' lines)"

definition reader_next :: "string list \<Rightarrow> unit + (string list option \<times> string list)" where
  "reader_next lines = reader_loop \<lparr> rstate = START_RECORD, rfields = [], rfield = [] \<rparr> lines"

text \<open>
  The lines that iterating over \<open>io.StringIO(text)\<close> gives: split after each
  \<open>\n\<close>, the newline kept.
\<close>

fun stringio_lines_acc :: "string \<Rightarrow> string \<Rightarrow> string list" where
  "stringio_lines_acc cur [] = (if cur = [] then [] else [cur])"
| "stringio_lines_acc cur (c # cs) =
     (if c = CHR 0x0A then (cur @ [c]) # stringio_lines_acc [] cs
      else stringio_lines_acc (cur @ [c]) cs)"

definition stringio_lines :: "string \<Rightarrow> string list" where
  "stringio_lines text = stringio_lines_acc [] text"

text \<open>
  \<open>next(csv.DictReader(f), None)\<close>: the first row gives the field names; empty rows
  are skipped; the row is zipped with the names, later names of a short row get
  \<open>None\<close>, and a later binding of a repeated name wins. The values beyond the names
  go under the key \<open>None\<close>, which no lookup by a string finds. The dict is returned as
  its lookup function. \<open>Inl ()\<close> is \<open>csv.Error\<close>, \<open>Inr None\<close> the default
  \<open>None\<close> at \<open>StopIteration\<close>.
\<close>

fun skip_blank_rows :: "nat \<Rightarrow> string list \<Rightarrow> unit + (string list option \<times> string list)" where
  "skip_blank_rows 0 lines = reader_next lines"
| "skip_blank_rows (Suc n) lines = (case reader_next lines of
       Inl e \<Rightarrow> Inl e
     | Inr (None, rest) \<Rightarrow> Inr (None, rest)
     | Inr (Some row, rest) \<Rightarrow> if row = [] then skip_blank_rows n rest else Inr (Some row, rest))"

definition dictreader_first :: "string \<Rightarrow> unit + (string \<rightharpoonup> fieldval) option" where
  "dictreader_first text = (case reader_next (stringio_lines text) of
       Inl e \<Rightarrow> Inl e
     | Inr (None, rest) \<Rightarrow> Inr None
     | Inr (Some fieldnames, rest) \<Rightarrow> (case skip_blank_rows (length rest) rest of
           Inl e \<Rightarrow> Inl e
         | Inr (None, rest') \<Rightarrow> Inr None
         | Inr (Some row, rest') \<Rightarrow>
             Inr (Some (map_of (rev (zip fieldnames (map Some row)
                    @ map (\<lambda>key. (key, None)) (drop (length row) fieldnames)))))))"

section \<open>LLMExtractor (llm_extractor.py): the wire format\<close>

text \<open>\<open>_parse_csv_output\<close>. Any exception of the reader ends in \<open>return None\<close>.\<close>

definition normalize_row :: "(string \<rightharpoonup> fieldval) \<Rightarrow> entities" where
  "normalize_row row = map_of (map (\<lambda>k. (k,
       case row k of
         None \<Rightarrow> None
       | Some None \<Rightarrow> None
       | Some (Some v) \<Rightarrow>
           (let v' = py_replace [CHR 0x5C, CHR ''n''] [CHR 0x0A] (py_strip v)
            in if v' \<noteq> [] then Some v' else None))) CSV_FIELDS)"

definition parse_rows :: "string \<Rightarrow> string \<Rightarrow> entities option" where
  "parse_rows header_line data_line =
     (case dictreader_first (header_line @ [CHR 0x0A] @ data_line @ [CHR 0x0A]) of
        Inl e \<Rightarrow> None
      | Inr None \<Rightarrow> None
      | Inr (Some row) \<Rightarrow> Some (normalize_row row))"

definition parse_csv_output :: "string \<Rightarrow> entities option" where
  "parse_csv_output raw0 =
     (if raw0 = [] then None
      else let raw = py_strip (py_replace [CHR 0x0D, CHR 0x0A] [CHR 0x0A] raw0);
               lines = filter (\<lambda>ln. py_strip ln \<noteq> []) (py_split CHR 0x0A raw)
           in case lines of
                [] \<Rightarrow> None
              | [l] \<Rightarrow> parse_rows (py_join '','' CSV_FIELDS) (py_strip l)
              | l # ls \<Rightarrow> parse_rows (py_strip l) (py_strip (py_join [CHR 0x0A] ls)))"

text \<open>
  \<open>str.splitlines\<close>: the line boundaries among the code points 0..255, \<open>\r\n\<close>
  counting once; no empty last line.
\<close>

definition is_linebreak :: "char \<Rightarrow> bool" where
  "is_linebreak c \<longleftrightarrow> c \<in> set [CHR 0x0A, CHR 0x0B, CHR 0x0C, CHR 0x0D, CHR 0x1C, CHR 0x1D, CHR 0x1E, CHR 0x85]"

fun splitlines_acc :: "string \<Rightarrow> string \<Rightarrow> string list" where
  "splitlines_acc cur [] = (if cur = [] then [] else [cur])"
| "splitlines_acc cur [c] = (if is_linebreak c then [cur] else [cur @ [c]])"
| "splitlines_acc cur (c # d # cs) =
     (if c = CHR 0x0D \<and> d = CHR 0x0A then cur # splitlines_acc [] cs
      else if is_linebreak c then cur # splitlines_acc [] (d # cs)
      else splitlines_acc (cur @ [c]) (d # cs))"

definition py_splitlines :: "string \<Rightarrow> string list" where
  "py_splitlines s = splitlines_acc [] s"

definition py_count :: "char \<Rightarrow> string \<Rightarrow> nat" where
  "py_count c s = length (filter ((=) c) s)"

text \<open>\<open>_extract_csv_block\<close>: the loop over adjacent candidate lines, then the fallback.\<close>

fun adjacent_block :: "string list \<Rightarrow> string option" where
  "adjacent_block (x # y # rest) =
     (let block = x @ [CHR 0x0A] @ y
      in if list_all (\<lambda>field. py_in field block \<or> py_in field x) (take 3 CSV_FIELDS)
         then Some block else adjacent_block (y # rest))"
| "adjacent_block _ = None"

definition extract_csv_block :: "string \<Rightarrow> string option" where
  "extract_csv_block text =
     (let candidate_lines = filter (\<lambda>ln. 3 \<le> py_count CHR '','' ln) (py_splitlines text)
      in if candidate_lines = [] then None
         else case adjacent_block candidate_lines of
                Some block \<Rightarrow> Some block
              | None \<Rightarrow> (case candidate_lines of
                    x # y # rest \<Rightarrow> Some (x @ [CHR 0x0A] @ y)
                  | _ \<Rightarrow> None))"

text \<open>\<open>dict_to_csv_line\<close>\<close>

definition dict_to_csv_line :: "entities \<Rightarrow> string" where
  "dict_to_csv_line d = py_strip (csv_writerow (map (\<lambda>f.
       case dict_get d f of
         None \<Rightarrow> []
       | Some v \<Rightarrow> py_replace [CHR 0x0A] [CHR 0x5C, CHR ''n''] v) CSV_FIELDS))"

section \<open>LLMExtractor: the heuristic extraction by labels\<close>

text \<open>
  \<open>find_after\<close> splices each label pattern in front of
  \<open>\s*[:\-]\s*(.+?)(?=\s+[A-Z][a-z]+:|\Z)\<close> and searches with \<open>IGNORECASE\<close>, under
  which both letter classes are the ASCII letters on the code points 0..255. An
  alternation in the label pattern is not parenthesised in the source, so it splits the
  whole expression and only its last branch carries the group. \<open>suffix n\<close> is the
  spliced part, its group numbered \<open>n\<close>.
\<close>

definition ascii_letter :: "char \<Rightarrow> bool" where
  "ascii_letter c \<longleftrightarrow> c \<in> set ''abcdefghijklmnopqrstuvwxyzABCDEFGHIJKLMNOPQRSTUVWXYZ''"

definition dot :: "char \<Rightarrow> bool" where
  "dot c \<longleftrightarrow> c \<noteq> CHR 0x0A"

definition suffix_re :: "string \<Rightarrow> regex" where
  "suffix_re n = seqs [Rep True 0 None py_isspace, Chr (one_of '':-''), Rep True 0 None py_isspace,
     Grp n (Rep False 1 None dot),
     Ahead (Alt (seqs [Rep True 1 None py_isspace, Chr ascii_letter, Rep True 1 None ascii_letter,
                       Chr ((=) CHR '':'')]) Eos)]"

text \<open>\<open>a|b|...|z\<close> spliced before the suffix: \<open>a|b|...|(z suffix)\<close>.\<close>

definition label_alts :: "string list \<Rightarrow> regex" where
  "label_alts labels = alts (map lit_ci (butlast labels) @ [Seq (lit_ci (last labels)) (suffix_re ''1'')])"

definition autor_patterns :: "regex list" where
  "autor_patterns = [
     seqs [Bol, Grp ''1'' (alts (map lit_ci [''appellant'', ''petitioner'', ''plaintiff'', ''autor'',
             ''peticioner'', ''petitioner''])), suffix_re ''2''],
     seqs [Behind (map ci ''versus'' @ [py_isspace]), Rep False 0 None dot,
           Ahead (seqs [Rep True 1 None py_isspace, Chr (ci CHR ''v''), WordB]), suffix_re ''1'']]"

definition reu_patterns :: "regex list" where
  "reu_patterns = [
     label_alts [''defendant'', ''respondent'', ''respondent:'', ''r'' @ [CHR 0xE9] @ ''u'', ''respondente''],
     seqs [lit_ci ''versus'', Rep True 1 None py_isspace, Grp ''1'' (Rep False 1 None dot),
           Chr py_isspace, suffix_re ''2'']]"

definition assunto_patterns :: "regex list" where
  "assunto_patterns = [
     label_alts [''subject'', ''assunto'', ''matter'', ''case about'', ''challenge to'', ''challenge of'']]"

definition tipo_patterns :: "regex list" where
  "tipo_patterns = [
     label_alts [''judgment'', ''order'', ''decision'', ''senten'' @ [CHR 0xE7] @ ''a'',
       ''ac'' @ [CHR 0xF3] @ ''rd'' @ [CHR 0xE3] @ ''o'', ''order:'']]"

definition resultado_patterns :: "regex list" where
  "resultado_patterns = [
     label_alts [''result'', ''disposition'', ''held that'', ''decided that'', ''order'', ''disposed''],
     label_alts [''result:'']]"

definition tribunal_patterns :: "regex list" where
  "tribunal_patterns = [
     label_alts [''court'', ''tribunal'', ''supreme court'', ''tribunal de''],
     seqs [lit_ci ''in the '', Grp ''1'' (Alt (lit_ci ''supreme court'') (lit_ci ''high court'')),
           suffix_re ''2'']]"

text \<open>\<open>(\d{1,2}[\/\-]\d{1,2}[\/\-]\d{2,4})\<close>, searched in the text as given.\<close>

definition heuristic_date_pattern :: regex where
  "heuristic_date_pattern = Grp ''1'' (seqs [Rep True 1 (Some 2) ascii_digit, Chr (one_of ''/-''),
     Rep True 1 (Some 2) ascii_digit, Chr (one_of ''/-''), Rep True 2 (Some 4) ascii_digit])"

text \<open>\<open>re.sub(r"\s+", " ", text)\<close>\<close>

fun collapse_spaces_run :: "bool \<Rightarrow> string \<Rightarrow> string" where
  "collapse_spaces_run in_run [] = []"
| "collapse_spaces_run in_run (c # cs) =
     (if py_isspace c
      then (if in_run then collapse_spaces_run True cs else CHR '' '' # collapse_spaces_run True cs)
      else c # collapse_spaces_run False cs)"

definition collapse_spaces :: "string \<Rightarrow> string" where
  "collapse_spaces s = collapse_spaces_run False s"

text \<open>
  \<open>find_after\<close>: the first pattern that matches decides; \<open>m.group(1).strip()\<close> raises
  \<open>AttributeError\<close> (\<open>Inl ()\<close>) when group 1 took no part in the match.
\<close>

fun find_after :: "string \<Rightarrow> regex list \<Rightarrow> unit + fieldval" where
  "find_after t [] = Inr None"
| "find_after t (pat # pats) = (case re_search pat t of
       None \<Rightarrow> find_after t pats
     | Some m \<Rightarrow> (case group m ''1'' of
           None \<Rightarrow> Inl ()
         | Some g \<Rightarrow> Inr (Some (py_strip g))))"

definition truthy :: "fieldval \<Rightarrow> bool" where
  "truthy v \<longleftrightarrow> (case v of None \<Rightarrow> False | Some s \<Rightarrow> s \<noteq> [])"

definition heuristic_extract :: "string \<Rightarrow> unit + entities option" where
  "heuristic_extract text =
     (let t = collapse_spaces text in
      case find_after t autor_patterns of Inl e \<Rightarrow> Inl e | Inr autor \<Rightarrow>
      case find_after t reu_patterns of Inl e \<Rightarrow> Inl e | Inr reu \<Rightarrow>
      case find_after t assunto_patterns of Inl e \<Rightarrow> Inl e | Inr assunto \<Rightarrow>
      case find_after t tipo_patterns of Inl e \<Rightarrow> Inl e | Inr tipo \<Rightarrow>
      case find_after t resultado_patterns of Inl e \<Rightarrow> Inl e | Inr resultado \<Rightarrow>
      let data = (case re_search heuristic_date_pattern text of
                    None \<Rightarrow> None | Some mdate \<Rightarrow> group mdate ''1'') in
      case find_after t tribunal_patterns of Inl e \<Rightarrow> Inl e | Inr tribunal \<Rightarrow>
      let out = [(''autor'', autor), (''reu'', reu), (''assunto_principal'', assunto),
                 (''tipo_decisao'', tipo), (''resultado'', resultado), (''resumo_5_linhas'', None),
                 (''data_decisao'', data), (''tribunal'', tribunal)]
      in if \<not> list_ex truthy (map snd out) then Inr None else Inr (Some (map_of out)))"

section \<open>LLMExtractor: \<open>extract_entities\<close>\<close>

text \<open>
  The model endpoint is outside the program. A call either raises or returns a response
  object, of which the code reads \<open>text\<close>, the parts of the first candidate (reading
  them may raise, and a part may lack its text), the candidate's \<open>str\<close>, and
  \<open>parsed\<close> (a dict, as a list of items; empty or missing is the empty list).
\<close>

record candidate =
  cand_parts :: "string option list option"
  cand_str :: string

record response =
  resp_text :: "string option"
  resp_candidates :: "candidate list"
  resp_parsed :: "(string \<times> fieldval) list"

datatype model_reply = Raises | Responds response

text \<open>What one pass through the \<open>try\<close> block does.\<close>

datatype attempt_result = Return entities | Fallthrough | Caught

text \<open>The three strategies on the stripped reply; the third one reads the document.\<close>

definition parse_strategies :: "string \<Rightarrow> string \<Rightarrow> attempt_result" where
  "parse_strategies raw_text text =
     (case parse_csv_output raw_text of
        Some parsed \<Rightarrow> Return parsed
      | None \<Rightarrow>
         (case (case extract_csv_block raw_text of
                  None \<Rightarrow> None
                | Some embedded \<Rightarrow> if embedded = [] then None else parse_csv_output embedded) of
            Some parsed2 \<Rightarrow> Return parsed2
          | None \<Rightarrow>
             (case heuristic_extract text of
                Inl e \<Rightarrow> Caught
              | Inr (Some heuristic) \<Rightarrow> Return heuristic
              | Inr None \<Rightarrow> Fallthrough)))"

definition candidate_text :: "candidate \<Rightarrow> string" where
  "candidate_text c = (case cand_parts c of
       None \<Rightarrow> cand_str c
     | Some parts \<Rightarrow> if list_all (\<lambda>p. p \<noteq> None) parts then concat (map the parts) else cand_str c)"

definition attempt_body :: "model_reply \<Rightarrow> string \<Rightarrow> attempt_result" where
  "attempt_body reply text = (case reply of
       Raises \<Rightarrow> Caught
     | Responds r \<Rightarrow>
         if truthy (resp_text r) then parse_strategies (py_strip (the (resp_text r))) text
         else if resp_candidates r \<noteq> [] then
           parse_strategies (py_strip (candidate_text (hd (resp_candidates r)))) text
         else if resp_parsed r \<noteq> [] then
           Return (map_of (map (\<lambda>k. (k, case map_of (resp_parsed r) k of None \<Rightarrow> None | Some v \<Rightarrow> v))
                     CSV_FIELDS))
         else parse_strategies (py_strip []) text)"

text \<open>
  The loop over \<open>range(1, attempts + 1)\<close>. The state is the list of the durations
  slept and the number of calls made to the model; \<open>client n\<close> is the model's reply to
  call \<open>n\<close>.
\<close>

record run =
  result :: "entities option"
  sleeps :: "nat list"
  calls :: nat

fun attempt_loop :: "(nat \<Rightarrow> model_reply) \<Rightarrow> string \<Rightarrow> int \<Rightarrow> int list \<Rightarrow> nat list \<Rightarrow> nat \<Rightarrow> run" where
  "attempt_loop client text attempts [] slept n = \<lparr> result = None, sleeps = slept, calls = n \<rparr>"
| "attempt_loop client text attempts (attempt # rest) slept n =
     (case attempt_body (client (Suc n)) text of
        Return parsed \<Rightarrow> \<lparr> result = Some parsed, sleeps = slept, calls = Suc n \<rparr>
      | _ \<Rightarrow> attempt_loop client text attempts rest
               (if attempt < attempts then slept @ [2 ^ nat (attempt - 1)] else slept) (Suc n))"

definition extract_entities :: "settings \<Rightarrow> (nat \<Rightarrow> model_reply) \<Rightarrow> string \<Rightarrow> bool \<Rightarrow> run" where
  "extract_entities cfg client text retry =
     (let attempts = (if retry then MAX_RETRIES cfg else 1)
      in attempt_loop client text attempts [1..attempts] [] 0)"

section \<open>TextCleaner (text_cleaner.py): truncation\<close>

text \<open>
  \<open>extract_sections\<close>, searched with \<open>IGNORECASE | DOTALL\<close>: the header is never
  filled in.
\<close>

definition anychar :: "char \<Rightarrow> bool" where
  "anychar c \<longleftrightarrow> True"

definition facts_pattern :: regex where
  "facts_pattern = seqs [
     alts [Seq (lit_ci ''FACT'') (Rep True 0 (Some 1) (ci CHR ''S'')), lit_ci ''FATOS'',
           seqs [lit_ci ''RELAT'', Chr (\<lambda>c. ci (CHR 0xD3) c \<or> ci CHR ''O'' c), lit_ci ''RIO'']],
     Rep False 0 None anychar,
     Ahead (lit [CHR 0x0A, CHR 0x0A])]"

definition arguments_pattern :: regex where
  "arguments_pattern = seqs [
     alts [Seq (lit_ci ''ARGUMENT'') (Rep True 0 (Some 1) (ci CHR ''S'')), lit_ci ''ARGUMENTOS'',
           Seq (lit_ci ''FUNDAMENTO'') (Rep True 0 (Some 1) (ci CHR ''S''))],
     Rep False 0 None anychar,
     Ahead (lit [CHR 0x0A, CHR 0x0A])]"

definition decision_pattern :: regex where
  "decision_pattern = seqs [
     alts [lit_ci ''DECISION'',
           seqs [lit_ci ''DECIS'', Chr (\<lambda>c. ci (CHR 0xC3) c \<or> ci CHR ''A'' c), lit_ci ''O''],
           seqs [lit_ci ''CONCLUS'', Chr (\<lambda>c. ci (CHR 0xC3) c \<or> ci CHR ''A'' c), lit_ci ''O''],
           lit_ci ''DISPOSITIVO''],
     Rep True 0 None anychar]"

record sections =
  header :: string
  facts :: string
  arguments :: string
  decision :: string
  full_text :: string

definition section_match :: "regex \<Rightarrow> string \<Rightarrow> string" where
  "section_match pat text = (case re_search pat text of None \<Rightarrow> [] | Some m \<Rightarrow> group0 m text)"

definition extract_sections :: "string \<Rightarrow> sections" where
  "extract_sections text = \<lparr> header = [], facts = section_match facts_pattern text,
     arguments = section_match arguments_pattern text,
     decision = section_match decision_pattern text, full_text = text \<rparr>"

definition truncate_for_llm :: "string \<Rightarrow> int \<Rightarrow> string" where
  "truncate_for_llm text max_tokens =
     (let max_chars = max_tokens * 4 in
      if int (length text) \<le> max_chars then text
      else let secs = extract_sections text;
               priority_text = py_take 500 (header secs) @ [CHR 0x0A, CHR 0x0A]
                 @ py_take 2000 (decision secs) @ [CHR 0x0A, CHR 0x0A] @ py_take 2000 (facts secs)
           in if int (length priority_text) > max_chars then py_take max_chars priority_text
              else let remaining = max_chars - int (length priority_text)
                   in priority_text @ [CHR 0x0A, CHR 0x0A] @ py_take remaining (full_text secs))"

section \<open>Reading results\<close>

text \<open>
  A mapping is a function; to compare two of them on concrete inputs, the values at the
  eight canonical fields are listed.
\<close>

definition fields_of :: "entities \<Rightarrow> fieldval option list" where
  "fields_of m = map m CSV_FIELDS"

definition returned_fields :: "attempt_result \<Rightarrow> fieldval option list option" where
  "returned_fields a = (case a of Return m \<Rightarrow> Some (fields_of m) | _ \<Rightarrow> None)"

definition heuristic_fields :: "string \<Rightarrow> fieldval option list option" where
  "heuristic_fields text = (case heuristic_extract text of
     Inr (Some m) \<Rightarrow> Some (fields_of m) | _ \<Rightarrow> None)"


section \<open>Notions for the round trip of the wire format\<close>

text \<open>The characters of a line without its end-of-line mark.\<close>

fun run_chars :: "reader \<Rightarrow> string \<Rightarrow> reader option" where
  "run_chars r [] = Some r"
| "run_chars r (c # cs) = (case parse_process_char r (Some c) of
       None \<Rightarrow> None
     | Some r' \<Rightarrow> run_chars r' cs)"

text \<open>The text of a field inside its quotes: every quote doubled.\<close>

definition dbl :: "string \<Rightarrow> string" where
  "dbl f = concat (map (\<lambda>c. if c = CHR 0x22 then [c, c] else [c]) f)"

text \<open>The escaping of \<open>dict_to_csv_line\<close>.\<close>

definition esc :: "string \<Rightarrow> string" where
  "esc v = py_replace [CHR 0x0A] [CHR 0x5C, CHR ''n''] v"

text \<open>
  The values that the wire format can carry: not empty; no whitespace at either end,
  except a newline, which is escaped; no backslash followed by \<open>n\<close>, which
  parsing would take for an escaped newline; and, escaped, within the field size limit of
  the reader.
\<close>

definition edge_ok :: "char \<Rightarrow> bool" where
  "edge_ok c \<longleftrightarrow> \<not> py_isspace c \<or> c = CHR 0x0A"

definition wire_safe :: "string \<Rightarrow> bool" where
  "wire_safe v \<longleftrightarrow> v \<noteq> [] \<and> edge_ok (hd v) \<and> edge_ok (last v)
     \<and> \<not> py_in [CHR 0x5C, CHR ''n''] v
     \<and> int (length v + py_count CHR 0x0A v) \<le> 131072"

section \<open>Evaluation and basic facts\<close>

lemmas str_defs = py_lower_def lower_char_def upper_chars_def lower_chars_def py_strip_def
  py_isspace_def py_split_ws_def collapse_ws_def is_placeholder_def

text \<open>\<open>lower_char\<close> on the bits of a character, for evaluation.\<close>

lemma lower_char_code [code]:
  "lower_char (Char b0 b1 b2 b3 b4 b5 b6 b7) =
     (if b6 \<and> \<not> b5 \<and>
         (if b7 then \<not> (b0 \<and> b1 \<and> b2 \<and> b3 \<and> b4) \<and> \<not> (b0 \<and> b1 \<and> b2 \<and> \<not> b3 \<and> b4)
          else (b0 \<or> b1 \<or> b2 \<or> b3 \<or> b4) \<and> \<not> (b4 \<and> b3 \<and> (b2 \<or> (b1 \<and> b0))))
      then Char b0 b1 b2 b3 b4 True b6 b7
      else Char b0 b1 b2 b3 b4 b5 b6 b7)"
  by (cases b0; cases b1; cases b2; cases b3; cases b4; cases b5; cases b6; cases b7)
     (simp_all add: lower_char_def upper_chars_def lower_chars_def)

lemma filled_iff:
  "is_filled ents k \<longleftrightarrow>
     (\<exists>s. dict_get ents k = Some s \<and> py_lower s \<notin> {''null'', ''none'', ''n/a'', ''''})"
  by (auto simp: is_filled_def dict_get_def py_lower_def split: option.splits)

section \<open>Completeness\<close>

text \<open>
  Claim C3. For every field mapping, \<open>calculate_completeness\<close> (with the eight entities
  of the configuration) lies in [0, 1] and is the number of canonical fields whose value
  is present and, lower-cased, is none of \<open>null\<close>, \<open>none\<close>, \<open>n/a\<close> and the empty
  string, divided by 8.
\<close>

theorem completeness_exact:
  "calculate_completeness default_settings ents
     = of_nat (card {k \<in> set CSV_FIELDS. \<exists>s. dict_get ents k = Some s
                        \<and> py_lower s \<notin> {''null'', ''none'', ''n/a'', ''''}}) / 8
   \<and> 0 \<le> calculate_completeness default_settings ents
   \<and> calculate_completeness default_settings ents \<le> 1"
proof -
  let ?P = "\<lambda>k. \<exists>s. dict_get ents k = Some s \<and> py_lower s \<notin> {''null'', ''none'', ''n/a'', ''''}"
  have d: "distinct CSV_FIELDS" by (simp add: CSV_FIELDS_def)
  have e: "ENTITIES default_settings = CSV_FIELDS" by (simp add: default_settings_def CSV_FIELDS_def)
  have l: "length CSV_FIELDS = 8" by (simp add: CSV_FIELDS_def)
  have f: "filter (is_filled ents) CSV_FIELDS = filter ?P CSV_FIELDS"
    by (rule filter_cong) (simp_all add: filled_iff)
  have c: "length (filter ?P CSV_FIELDS) = card {k \<in> set CSV_FIELDS. ?P k}"
    using distinct_length_filter[OF d, of ?P] by (simp add: Int_def conj_commute)
  have le: "length (filter ?P CSV_FIELDS) \<le> 8" using length_filter_le[of ?P CSV_FIELDS] l by simp
  have eq: "calculate_completeness default_settings ents = of_nat (length (filter ?P CSV_FIELDS)) / 8"
    by (simp add: calculate_completeness_def e l f)
  have eq': "calculate_completeness default_settings ents = of_nat (card {k \<in> set CSV_FIELDS. ?P k}) / 8"
    unfolding eq c ..
  have le': "card {k \<in> set CSV_FIELDS. ?P k} \<le> 8"
    using le unfolding c .
  have b: "(0::rat) \<le> of_nat (card {k \<in> set CSV_FIELDS. ?P k}) / 8
      \<and> (of_nat (card {k \<in> set CSV_FIELDS. ?P k}) :: rat) / 8 \<le> 1"
    using le' by simp
  show ?thesis unfolding eq' using b by blast
qed

text \<open>One name, one placeholder and one \<open>None\<close>: exactly one field counts.\<close>

theorem completeness_exact_witness:
  "card {k \<in> set CSV_FIELDS. \<exists>s.
      dict_get [''autor'' \<mapsto> Some ''John Doe'', ''reu'' \<mapsto> Some ''N/A'', ''tribunal'' \<mapsto> None] k = Some s
      \<and> py_lower s \<notin> {''null'', ''none'', ''n/a'', ''''}} = 1"
proof -
  have "calculate_completeness default_settings
     [''autor'' \<mapsto> Some ''John Doe'', ''reu'' \<mapsto> Some ''N/A'', ''tribunal'' \<mapsto> None] = 1 / 8"
    by (simp add: calculate_completeness_def default_settings_def is_filled_def str_defs)
  then show ?thesis
    using completeness_exact[of "[''autor'' \<mapsto> Some ''John Doe'', ''reu'' \<mapsto> Some ''N/A'', ''tribunal'' \<mapsto> None]"]
    by simp
qed

section \<open>Placeholders\<close>

lemma py_lower_Nil_iff: "py_lower s = [] \<longleftrightarrow> s = []"
  by (simp add: py_lower_def)

lemma placeholder_iff:
  "is_placeholder (Some s) \<longleftrightarrow> py_lower s \<in> {''null'', ''none'', ''n/a'', ''''}"
  by (auto simp: is_placeholder_def py_lower_Nil_iff)

lemma placeholder_None: "is_placeholder None"
  by (simp add: is_placeholder_def)

text \<open>
  Claim C4 says that every validator answers a placeholder with \<open>(True, None, "")\<close>.
  The summary validator does not: its guard is the same, its answer is a failure.
\<close>

theorem placeholder_summary_counterexample:
  "validate_summary default_settings (Some ''null'')
     = (False, None, ''Resumo '' @ [CHR 0xE9] @ '' obrigat'' @ [CHR 0xF3] @ ''rio'')"
  by (simp add: validate_summary_def str_defs)

text \<open>
  Claim C4, amended. A placeholder (lower-cased \<open>null\<close>, \<open>none\<close>, \<open>n/a\<close>, or the
  empty string) short-circuits the validators of the party names, the subject, the
  decision type, the outcome, the date and the court to \<open>(True, None, "")\<close>, and the
  summary validator to \<open>(False, None, "Resumo e obrigatorio")\<close>; every validator, the
  summary's included, treats a placeholder exactly as it treats an absent value.
\<close>

theorem placeholder_short_circuit:
  assumes "py_lower s \<in> {''null'', ''none'', ''n/a'', ''''}"
  shows "validate_party_name (Some s) = (True, None, [])
       \<and> validate_subject (Some s) = (True, None, [])
       \<and> validate_decision_type (Some s) = (True, None, [])
       \<and> validate_result cfg (Some s) = (True, None, [])
       \<and> validate_date pad (Some s) = (True, None, [])
       \<and> validate_court (Some s) = (True, None, [])
       \<and> validate_summary cfg (Some s)
            = (False, None, ''Resumo '' @ [CHR 0xE9] @ '' obrigat'' @ [CHR 0xF3] @ ''rio'')
       \<and> list_all (\<lambda>(field, validator). validator (Some s) = validator None) (validators cfg pad)"
proof -
  have p: "is_placeholder (Some s)" using assms by (simp only: placeholder_iff)
  show ?thesis
    using p placeholder_None
    by (simp add: validate_party_name_def validate_subject_def validate_decision_type_def
        validate_result_def validate_date_def validate_court_def validate_summary_def validators_def)
qed

theorem placeholder_short_circuit_witness:
  "py_lower ''N/A'' \<in> {''null'', ''none'', ''n/a'', ''''}
   \<and> validate_party_name (Some ''N/A'') = (True, None, [])
   \<and> validate_date True (Some ''N/A'') = (True, None, [])
   \<and> validate_summary default_settings (Some ''N/A'')
        = (False, None, ''Resumo '' @ [CHR 0xE9] @ '' obrigat'' @ [CHR 0xF3] @ ''rio'')"
proof -
  have h: "py_lower ''N/A'' \<in> {''null'', ''none'', ''n/a'', ''''}" by (simp add: str_defs)
  show ?thesis
    using h placeholder_short_circuit[OF h, of default_settings True] by blast
qed

section \<open>The summary validator\<close>

text \<open>
  Claim C5. The summary validator fails exactly on an absent or placeholder value and on
  a value with fewer non-empty lines than the configured minimum; with more non-empty
  lines than the maximum (5 by default) it keeps the first ones, stripped, joined by
  newlines, and succeeds; every other validator accepts an absent value.
\<close>

theorem summary_validator:
  "validate_summary cfg None = (False, None, ''Resumo '' @ [CHR 0xE9] @ '' obrigat'' @ [CHR 0xF3] @ ''rio'')
   \<and> (\<not> fst (validate_summary cfg (Some s)) \<longleftrightarrow>
        py_lower s \<in> {''null'', ''none'', ''n/a'', ''''}
        \<or> int (length (filter (\<lambda>line. py_strip line \<noteq> []) (py_split CHR 0x0A s))) < MIN_SUMMARY_LINES cfg)
   \<and> (py_lower s \<notin> {''null'', ''none'', ''n/a'', ''''}
        \<and> 5 < length (filter (\<lambda>line. py_strip line \<noteq> []) (py_split CHR 0x0A s))
      \<longrightarrow> validate_summary default_settings (Some s)
          = (True, Some (py_join [CHR 0x0A]
               (take 5 (map py_strip (filter (\<lambda>line. py_strip line \<noteq> []) (py_split CHR 0x0A s))))), []))
   \<and> (py_lower s \<notin> {''null'', ''none'', ''n/a'', ''''}
        \<and> MIN_SUMMARY_LINES cfg \<le> int (length (filter (\<lambda>line. py_strip line \<noteq> []) (py_split CHR 0x0A s)))
        \<and> MAX_SUMMARY_LINES cfg < int (length (filter (\<lambda>line. py_strip line \<noteq> []) (py_split CHR 0x0A s)))
      \<longrightarrow> validate_summary cfg (Some s)
          = (True, Some (py_join [CHR 0x0A] (py_take (MAX_SUMMARY_LINES cfg)
               (map py_strip (filter (\<lambda>line. py_strip line \<noteq> []) (py_split CHR 0x0A s))))), []))
   \<and> fst (validate_party_name None) \<and> fst (validate_subject None) \<and> fst (validate_decision_type None)
   \<and> fst (validate_result cfg None) \<and> fst (validate_date pad None) \<and> fst (validate_court None)"
  using placeholder_None
  by (auto simp: validate_summary_def placeholder_iff summary_lines_def Let_def take_map py_take_def
        default_settings_def validate_party_name_def validate_subject_def validate_decision_type_def
        validate_result_def validate_date_def validate_court_def)

text \<open>Seven non-empty lines (and a blank one): the first five, stripped.\<close>

theorem summary_validator_witness:
  "validate_summary default_settings (Some ''l1\<newline> l2 \<newline>\<newline>l3\<newline>l4\<newline>l5\<newline>l6\<newline>l7'')
     = (True, Some ''l1\<newline>l2\<newline>l3\<newline>l4\<newline>l5'', [])"
proof -
  have a: "py_lower ''l1\<newline> l2 \<newline>\<newline>l3\<newline>l4\<newline>l5\<newline>l6\<newline>l7'' \<notin> {''null'', ''none'', ''n/a'', ''''}"
    by (simp add: py_lower_def)
  have b: "filter (\<lambda>line. py_strip line \<noteq> []) (py_split CHR 0x0A ''l1\<newline> l2 \<newline>\<newline>l3\<newline>l4\<newline>l5\<newline>l6\<newline>l7'')
      = [''l1'', '' l2 '', ''l3'', ''l4'', ''l5'', ''l6'', ''l7'']"
    by (simp add: str_defs)
  show ?thesis
    using a summary_validator[of default_settings "''l1\<newline> l2 \<newline>\<newline>l3\<newline>l4\<newline>l5\<newline>l6\<newline>l7''"]
    unfolding b by (simp add: str_defs)
qed

declare show_nat.simps [simp del]

lemmas re_defs = re_match_def re_search_def first_match_def group_def group0_def ci_def one_of_def
  lit_def lit_ci_def ascii_digit_def

lemmas date_defs = validate_date_def date_formats_def strptime_def directive_def month_names_def
  valid_date_def days_in_month_def isleap_def py_int_def digit_val_def zfill_def strftime_dmY_def
  date_pattern_def digit_char_def

section \<open>Regular expressions: membership in the list of matches\<close>

lemma rmatch_Seq_iff:
  "st' \<in> set (rmatch (Seq r1 r2) st) \<longleftrightarrow> (\<exists>st1 \<in> set (rmatch r1 st). st' \<in> set (rmatch r2 st1))"
  by auto

lemma rmatch_Chr_iff:
  "st' \<in> set (rmatch (Chr p) (b, a, g)) \<longleftrightarrow> (\<exists>c cs. a = c # cs \<and> p c \<and> st' = (c # b, cs, g))"
  by (auto split: list.splits)

lemma rmatch_Grp_iff:
  "st' \<in> set (rmatch (Grp n r) (b, a, g)) \<longleftrightarrow>
     (\<exists>b' a' g'. (b', a', g') \<in> set (rmatch r (b, a, g))
        \<and> st' = (b', a', (n, take (length a - length a') a) # g'))"
  by (auto simp: image_iff) force+

lemma take_takeWhile_all: "j \<le> length (takeWhile p a) \<Longrightarrow> list_all p (take j a)"
proof -
  assume j: "j \<le> length (takeWhile p a)"
  have "take j a = take j (takeWhile p a)"
    using j by (metis takeWhile_eq_take take_take min.absorb1)
  then show ?thesis
    by (metis list_all_iff set_takeWhileD in_set_takeD)
qed

lemma rmatch_Rep_iff:
  "st' \<in> set (rmatch (Rep gr lo hi p) (b, a, g)) \<longleftrightarrow>
     (\<exists>j. lo \<le> j \<and> j \<le> length (takeWhile p a) \<and> (case hi of None \<Rightarrow> True | Some h \<Rightarrow> j \<le> h)
        \<and> st' = (rev (take j a) @ b, drop j a, g))"
proof -
  define k where "k = (case hi of None \<Rightarrow> length (takeWhile p a) | Some h \<Rightarrow> min h (length (takeWhile p a)))"
  have s: "set (rmatch (Rep gr lo hi p) (b, a, g)) = (\<lambda>j. (rev (take j a) @ b, drop j a, g)) ` {lo..k}"
    by (cases gr) (auto simp: Let_def k_def)
  have r: "\<And>j. j \<in> {lo..k} \<longleftrightarrow> lo \<le> j \<and> j \<le> length (takeWhile p a) \<and> (case hi of None \<Rightarrow> True | Some h \<Rightarrow> j \<le> h)"
    by (cases hi) (auto simp: k_def)
  show ?thesis unfolding s image_iff Bex_def r by blast
qed

lemma first_match_in_set:
  assumes "first_match r b a = Some m"
  shows "\<exists>b' a'. (b', a', m_groups m) \<in> set (rmatch r (b, a, [])) \<and> m_start m = length b \<and> m_end m = length b'"
proof (cases "rmatch r (b, a, [])")
  case Nil
  with assms show ?thesis by (simp add: first_match_def)
next
  case (Cons st sts)
  obtain b' a' g where st: "st = (b', a', g)" by (cases st)
  with Cons assms have "m = \<lparr>m_start = length b, m_end = length b', m_groups = g\<rparr>"
    by (simp add: first_match_def)
  with Cons st show ?thesis by auto
qed

lemma search_from_first_match:
  "search_from r b a = Some m \<Longrightarrow> \<exists>b' a'. rev b' @ a' = rev b @ a \<and> first_match r b' a' = Some m"
proof (induction a arbitrary: b)
  case Nil
  then show ?case by auto
next
  case (Cons c cs)
  show ?case
  proof (cases "first_match r b (c # cs)")
    case None
    with Cons.prems have "search_from r (c # b) cs = Some m" by simp
    from Cons.IH[OF this] show ?thesis by auto
  next
    case (Some m')
    with Cons.prems have "m' = m" by simp
    with Some show ?thesis by blast
  qed
qed

lemma sub_sub_takeWhile: "j \<le> length (takeWhile p a) \<Longrightarrow> length a - (length a - j) = j"
  using length_takeWhile_le[of p a] by simp

lemma date_pattern_groups:
  assumes "re_search date_pattern s = Some m"
  shows "\<exists>dd mm yyyy. group m ''1'' = Some dd \<and> group m ''2'' = Some mm \<and> group m ''3'' = Some yyyy
     \<and> list_all ascii_digit dd \<and> list_all ascii_digit mm \<and> list_all ascii_digit yyyy
     \<and> length dd \<in> {1, 2} \<and> length mm \<in> {1, 2} \<and> length yyyy = 4"
proof -
  from assms obtain b a where fm: "first_match date_pattern b a = Some m"
    unfolding re_search_def using search_from_first_match by blast
  from first_match_in_set[OF fm] obtain b' a' where
    mem: "(b', a', m_groups m) \<in> set (rmatch date_pattern (b, a, []))" by auto
  from mem show ?thesis
    unfolding date_pattern_def seqs.simps rmatch_Seq_iff
    apply (clarsimp simp only: rmatch_Grp_iff rmatch_Rep_iff rmatch_Chr_iff rmatch_Seq_iff split_paired_Ex)
    apply (clarsimp simp: group_def)
    apply (auto simp: take_takeWhile_all sub_sub_takeWhile min_def)
    done
qed

section \<open>Decimal rendering and dates\<close>

lemma show_nat_1: "n < 10 \<Longrightarrow> show_nat n = [digit_char n]"
  by (simp add: show_nat.simps)

lemma show_nat_2: "10 \<le> n \<Longrightarrow> n < 100 \<Longrightarrow> show_nat n = [digit_char (n div 10), digit_char (n mod 10)]"
  by (subst show_nat.simps) (simp add: show_nat_1)

lemma show_nat_3: "100 \<le> n \<Longrightarrow> n < 1000 \<Longrightarrow>
    show_nat n = [digit_char (n div 100), digit_char (n div 10 mod 10), digit_char (n mod 10)]"
  by (subst show_nat.simps) (simp add: show_nat_2 div_mult2_eq[symmetric])

lemma show_nat_4: "1000 \<le> n \<Longrightarrow> n < 10000 \<Longrightarrow>
    show_nat n = [digit_char (n div 1000), digit_char (n div 100 mod 10), digit_char (n div 10 mod 10), digit_char (n mod 10)]"
  by (subst show_nat.simps) (simp add: show_nat_3 div_mult2_eq[symmetric])

lemma digit_char_digit: "n < 10 \<Longrightarrow> ascii_digit (digit_char n)"
proof -
  assume "n < 10"
  then have "n \<in> {0,1,2,3,4,5,6,7,8,9}" by auto
  then show ?thesis by (auto simp: digit_char_def ascii_digit_def)
qed

lemma zfill2_digits:
  "n < 100 \<Longrightarrow> zfill 2 (show_nat n) = [digit_char (n div 10), digit_char (n mod 10)]"
  by (cases "n < 10") (simp_all add: zfill_def show_nat_1 show_nat_2 digit_char_def)

lemma zfill4_digits:
  "n < 10000 \<Longrightarrow> zfill 4 (show_nat n) =
     [digit_char (n div 1000), digit_char (n div 100 mod 10), digit_char (n div 10 mod 10), digit_char (n mod 10)]"
proof -
  assume n: "n < 10000"
  consider "n < 10" | "10 \<le> n" "n < 100" | "100 \<le> n" "n < 1000" | "1000 \<le> n" by linarith
  then show ?thesis
  proof cases
    case 1 then show ?thesis by (simp add: zfill_def show_nat_1 digit_char_def numeral_3_eq_3)
  next
    case 2 then show ?thesis by (simp add: zfill_def show_nat_2 digit_char_def numeral_2_eq_2)
  next
    case 3 then show ?thesis by (simp add: zfill_def show_nat_3 digit_char_def)
  next
    case 4 with n show ?thesis by (simp add: zfill_def show_nat_4)
  qed
qed

lemma days_in_month_le: "days_in_month y m \<le> 31"
  by (simp add: days_in_month_def)

lemma strftime_shape:
  assumes "valid_date (year dt) (month dt) (day dt)" "pad \<or> 1000 \<le> year dt"
  shows "is_ddmmyyyy (strftime_dmY pad dt)"
proof -
  from assms(1) have d: "day dt < 100" and m: "month dt < 100" and y: "year dt < 10000"
    using days_in_month_le[of "year dt" "month dt"] by (auto simp: valid_date_def)
  have yy: "(if pad then zfill 4 (show_nat (year dt)) else show_nat (year dt)) =
     [digit_char (year dt div 1000), digit_char (year dt div 100 mod 10),
      digit_char (year dt div 10 mod 10), digit_char (year dt mod 10)]"
    using assms(2) y by (auto simp: zfill4_digits show_nat_4)
  have *: "year dt div 1000 < 10" "day dt div 10 < 10" "month dt div 10 < 10" using y d m by auto
  show ?thesis
    unfolding strftime_dmY_def yy zfill2_digits[OF d] zfill2_digits[OF m]
    using * by (simp add: is_ddmmyyyy_def digit_char_digit)
qed

lemma strptime_valid: "strptime s fmt = Some dt \<Longrightarrow> valid_date (year dt) (month dt) (day dt)"
  by (auto simp: strptime_def Let_def split: option.splits if_splits)

lemma first_format_index:
  "i < length fmts \<Longrightarrow> strptime s (fmts ! i) = Some dt \<Longrightarrow> (\<forall>j<i. strptime s (fmts ! j) = None)
     \<Longrightarrow> first_format s fmts = Some dt"
proof (induction fmts arbitrary: i)
  case Nil
  then show ?case by simp
next
  case (Cons f fs)
  show ?case
  proof (cases i)
    case 0
    with Cons.prems show ?thesis by simp
  next
    case (Suc k)
    with Cons.prems have f0: "strptime s f = None" by auto
    have "first_format s fs = Some dt"
      using Cons.prems Suc by (intro Cons.IH[of k]) auto
    with f0 show ?thesis by simp
  qed
qed

lemma first_format_none:
  "(\<forall>j<length fmts. strptime s (fmts ! j) = None) \<Longrightarrow> first_format s fmts = None"
proof (induction fmts)
  case Nil
  then show ?case by simp
next
  case (Cons f fs)
  then have "strptime s f = None" by auto
  moreover have "\<forall>j<length fs. strptime s (fs ! j) = None"
  proof (intro allI impI)
    fix j assume "j < length fs"
    then show "strptime s (fs ! j) = None" using Cons.prems[rule_format, of "Suc j"] by simp
  qed
  then have "first_format s fs = None" by (rule Cons.IH)
  ultimately show ?case by simp
qed

lemma validate_date_ok: "fst (validate_date pad v) \<and> snd (snd (validate_date pad v)) = []"
  by (simp add: validate_date_def split: option.splits)

lemma validate_date_layout:
  assumes "\<not> is_placeholder (Some s)" "first_format s date_formats = Some dt"
  shows "validate_date pad (Some s) = (True, Some (strftime_dmY pad dt), [])"
  using assms by (simp add: validate_date_def)

lemma validate_date_regex:
  assumes "\<not> is_placeholder (Some s)" "first_format s date_formats = None"
    "re_search date_pattern s = Some m"
  shows "validate_date pad (Some s)
     = (True, Some (zfill 2 (the (group m ''1'')) @ ''/'' @ zfill 2 (the (group m ''2'')) @ ''/'' @ the (group m ''3'')), [])"
  using assms by (simp add: validate_date_def)

lemma validate_date_passthrough:
  assumes "\<not> is_placeholder (Some s)" "first_format s date_formats = None"
    "re_search date_pattern s = None"
  shows "validate_date pad (Some s) = (True, Some s, [])"
  using assms by (simp add: validate_date_def)

lemma date_example: "validate_date pad (Some ''March 5, 2021'') = (True, Some ''05/03/2021'', [])"
  by (simp add: str_defs re_defs date_defs show_nat.simps)

section \<open>The date validator\<close>

lemma strftime_digits:
  assumes "valid_date (year dt) (month dt) (day dt)" "pad \<or> 1000 \<le> year dt"
  shows "strftime_dmY pad dt =
     [digit_char (day dt div 10), digit_char (day dt mod 10), CHR ''/'',
      digit_char (month dt div 10), digit_char (month dt mod 10), CHR ''/'',
      digit_char (year dt div 1000), digit_char (year dt div 100 mod 10),
      digit_char (year dt div 10 mod 10), digit_char (year dt mod 10)]"
proof -
  from assms(1) have d: "day dt < 100" and m: "month dt < 100" and y: "year dt < 10000"
    using days_in_month_le[of "year dt" "month dt"] by (auto simp: valid_date_def)
  have yy: "(if pad then zfill 4 (show_nat (year dt)) else show_nat (year dt)) =
     [digit_char (year dt div 1000), digit_char (year dt div 100 mod 10),
      digit_char (year dt div 10 mod 10), digit_char (year dt mod 10)]"
    using assms(2) y by (auto simp: zfill4_digits show_nat_4)
  show ?thesis
    unfolding strftime_dmY_def yy zfill2_digits[OF d] zfill2_digits[OF m] by simp
qed

text \<open>
  The branches of the date validator. It never fails. On a non-placeholder value the
  first layout of the ordered list that parses decides, and the date is rendered with
  \<open>strftime('%d/%m/%Y')\<close>: for a year from 1000 on, or where the platform pads \<open>%Y\<close>,
  these are the two digits of the day, of the month and the four of the year of the
  parsed date. When no layout parses, the numeric triplet found by the regular expression
  is rendered with day and month zero-filled to two digits. When that fails too, the
  value is returned unchanged, with success.
\<close>

lemma validate_date_cases:
  "fst (validate_date pad v) \<and> snd (snd (validate_date pad v)) = []
   \<and> (py_lower s \<notin> {''null'', ''none'', ''n/a'', ''''}
        \<and> i < length date_formats \<and> strptime s (date_formats ! i) = Some dt
        \<and> (\<forall>j<i. strptime s (date_formats ! j) = None)
      \<longrightarrow> validate_date pad (Some s) = (True, Some (strftime_dmY pad dt), [])
          \<and> (pad \<or> 1000 \<le> year dt \<longrightarrow> is_ddmmyyyy (strftime_dmY pad dt)
                \<and> strftime_dmY pad dt =
                    [digit_char (day dt div 10), digit_char (day dt mod 10), CHR ''/'',
                     digit_char (month dt div 10), digit_char (month dt mod 10), CHR ''/'',
                     digit_char (year dt div 1000), digit_char (year dt div 100 mod 10),
                     digit_char (year dt div 10 mod 10), digit_char (year dt mod 10)]))
   \<and> validate_date pad (Some ''March 5, 2021'') = (True, Some ''05/03/2021'', [])
   \<and> (py_lower s \<notin> {''null'', ''none'', ''n/a'', ''''}
        \<and> (\<forall>j<length date_formats. strptime s (date_formats ! j) = None)
        \<and> re_search date_pattern s = Some m
      \<longrightarrow> (\<exists>dd mm yyyy. group m ''1'' = Some dd \<and> group m ''2'' = Some mm \<and> group m ''3'' = Some yyyy
            \<and> validate_date pad (Some s) = (True, Some (zfill 2 dd @ ''/'' @ zfill 2 mm @ ''/'' @ yyyy), [])))
   \<and> (py_lower s \<notin> {''null'', ''none'', ''n/a'', ''''}
        \<and> (\<forall>j<length date_formats. strptime s (date_formats ! j) = None)
        \<and> re_search date_pattern s = None
      \<longrightarrow> validate_date pad (Some s) = (True, Some s, []))"
proof (intro conjI impI)
  show "fst (validate_date pad v)" "snd (snd (validate_date pad v)) = []"
    using validate_date_ok by auto
  show "validate_date pad (Some ''March 5, 2021'') = (True, Some ''05/03/2021'', [])"
    by (rule date_example)
next
  assume a: "py_lower s \<notin> {''null'', ''none'', ''n/a'', ''''}
        \<and> i < length date_formats \<and> strptime s (date_formats ! i) = Some dt
        \<and> (\<forall>j<i. strptime s (date_formats ! j) = None)"
  then have np: "\<not> is_placeholder (Some s)" by (simp only: placeholder_iff simp_thms)
  from a have "first_format s date_formats = Some dt" by (intro first_format_index[of i]) auto
  from validate_date_layout[OF np this]
  show "validate_date pad (Some s) = (True, Some (strftime_dmY pad dt), [])" .
  assume p: "pad \<or> 1000 \<le> year dt"
  from a have v: "valid_date (year dt) (month dt) (day dt)"
    by (intro strptime_valid[of s "date_formats ! i"]) auto
  from v p show "is_ddmmyyyy (strftime_dmY pad dt)" by (rule strftime_shape)
  from v p show "strftime_dmY pad dt =
                    [digit_char (day dt div 10), digit_char (day dt mod 10), CHR ''/'',
                     digit_char (month dt div 10), digit_char (month dt mod 10), CHR ''/'',
                     digit_char (year dt div 1000), digit_char (year dt div 100 mod 10),
                     digit_char (year dt div 10 mod 10), digit_char (year dt mod 10)]"
    by (rule strftime_digits)
next
  assume a: "py_lower s \<notin> {''null'', ''none'', ''n/a'', ''''}
        \<and> (\<forall>j<length date_formats. strptime s (date_formats ! j) = None)
        \<and> re_search date_pattern s = Some m"
  then have np: "\<not> is_placeholder (Some s)" by (simp only: placeholder_iff simp_thms)
  from a have ff: "first_format s date_formats = None" by (intro first_format_none) auto
  from a have rs: "re_search date_pattern s = Some m" by simp
  from date_pattern_groups[OF rs] validate_date_regex[OF np ff rs, of pad]
  show "\<exists>dd mm yyyy. group m ''1'' = Some dd \<and> group m ''2'' = Some mm \<and> group m ''3'' = Some yyyy
            \<and> validate_date pad (Some s) = (True, Some (zfill 2 dd @ ''/'' @ zfill 2 mm @ ''/'' @ yyyy), [])"
    by auto
next
  assume a: "py_lower s \<notin> {''null'', ''none'', ''n/a'', ''''}
        \<and> (\<forall>j<length date_formats. strptime s (date_formats ! j) = None)
        \<and> re_search date_pattern s = None"
  then have np: "\<not> is_placeholder (Some s)" by (simp only: placeholder_iff simp_thms)
  from a have ff: "first_format s date_formats = None" by (intro first_format_none) auto
  from a validate_date_passthrough[OF np ff, of pad]
  show "validate_date pad (Some s) = (True, Some s, [])" by simp
qed


lemma all_formats_fail:
  "list_all (\<lambda>f. strptime s f = None) fmts \<Longrightarrow> \<forall>j<length fmts. strptime s (fmts ! j) = None"
  by (simp add: list_all_length)

text \<open>A dashed date (second layout), a date inside other text (regex), and no date at all.\<close>

lemma validate_date_examples:
  "validate_date False (Some ''5-3-2021'') = (True, Some ''05/03/2021'', [])
   \<and> is_ddmmyyyy ''05/03/2021''
   \<and> validate_date False (Some ''on 5.3.2021 x'') = (True, Some ''05/03/2021'', [])
   \<and> validate_date False (Some ''tomorrow'') = (True, Some ''tomorrow'', [])"
proof -
  have l1: "py_lower ''5-3-2021'' \<notin> {''null'', ''none'', ''n/a'', []}"
    and l2: "py_lower ''on 5.3.2021 x'' \<notin> {''null'', ''none'', ''n/a'', []}"
    and l3: "py_lower ''tomorrow'' \<notin> {''null'', ''none'', ''n/a'', []}"
    by (simp_all add: py_lower_def)
  have a1: "strptime ''5-3-2021'' (date_formats ! 1) = Some \<lparr>year = 2021, month = 3, day = 5\<rparr>"
    by (simp add: str_defs re_defs date_defs)
  have a0: "\<forall>j<1. strptime ''5-3-2021'' (date_formats ! j) = None"
    by (simp add: str_defs re_defs date_defs)
  have b: "\<forall>j<length date_formats. strptime ''on 5.3.2021 x'' (date_formats ! j) = None"
    by (rule all_formats_fail) (simp add: str_defs re_defs date_defs)
  have c: "\<forall>j<length date_formats. strptime ''tomorrow'' (date_formats ! j) = None"
    by (rule all_formats_fail) (simp add: str_defs re_defs date_defs)
  have rb: "re_search date_pattern ''on 5.3.2021 x''
      = Some \<lparr>m_start = 3, m_end = 11, m_groups = [(''3'', ''2021''), (''2'', ''3''), (''1'', ''5'')]\<rparr>"
    by (simp add: re_defs date_pattern_def)
  have rc: "re_search date_pattern ''tomorrow'' = None"
    by (simp add: re_defs date_pattern_def)
  have s: "strftime_dmY False \<lparr>year = 2021, month = 3, day = 5\<rparr> = ''05/03/2021''"
    by (simp add: date_defs show_nat.simps)
  have i1: "(1::nat) < length date_formats" by (simp add: date_formats_def)
  show ?thesis
    using validate_date_cases[where pad = False and s = "''5-3-2021''" and i = 1
        and dt = "\<lparr>year = 2021, month = 3, day = 5\<rparr>"]
      validate_date_cases[where pad = False and s = "''on 5.3.2021 x''"
        and m = "\<lparr>m_start = 3, m_end = 11, m_groups = [(''3'', ''2021''), (''2'', ''3''), (''1'', ''5'')]\<rparr>"]
      validate_date_cases[where pad = False and s = "''tomorrow''"]
      l1 l2 l3 a0 a1 b c rb rc i1
    by (simp add: s group_def zfill_def digit_char_def)
qed

text \<open>
  Claim C8 says that a date which parses in one of the layouts is rendered as
  \<open>DD/MM/YYYY\<close>, as the comment on the rendering does. \<open>01/01/0999\<close> parses in the
  first layout, as the first of January of the year 999. Where the C library does not pad
  \<open>%Y\<close> (glibc), \<open>strftime('%d/%m/%Y')\<close> renders it \<open>01/01/999\<close>, nine characters with
  a year of three digits; where it pads, the result is \<open>01/01/0999\<close>.
\<close>

theorem date_year_unpadded:
  "strptime ''01/01/0999'' ''%d/%m/%Y'' = Some \<lparr>year = 999, month = 1, day = 1\<rparr>
   \<and> validate_date False (Some ''01/01/0999'') = (True, Some ''01/01/999'', [])
   \<and> \<not> is_ddmmyyyy ''01/01/999''
   \<and> validate_date True (Some ''01/01/0999'') = (True, Some ''01/01/0999'', [])"
  by code_simp

section \<open>Truncation for the model\<close>

lemma truncate_within_budget:
  "int (length text) \<le> max_tokens * 4 \<Longrightarrow> truncate_for_llm text max_tokens = text"
  by (simp add: truncate_for_llm_def)

text \<open>
  Beyond the budget, unless the composite alone is cut to the budget, the result is two
  characters longer than the budget: the separator before the padding is not counted.
\<close>

lemma truncate_padded_length:
  assumes "max_tokens * 4 < int (length text)"
    and "truncate_for_llm text max_tokens \<noteq> py_take (max_tokens * 4)
           ([CHR 0x0A, CHR 0x0A] @ py_take 2000 (decision (extract_sections text))
             @ [CHR 0x0A, CHR 0x0A] @ py_take 2000 (facts (extract_sections text)))"
  shows "int (length (truncate_for_llm text max_tokens)) = max_tokens * 4 + 2"
proof -
  define p where "p = [CHR 0x0A, CHR 0x0A] @ py_take 2000 (decision (extract_sections text))
             @ [CHR 0x0A, CHR 0x0A] @ py_take 2000 (facts (extract_sections text))"
  have h: "py_take 500 (header (extract_sections text)) = []"
    by (simp add: extract_sections_def py_take_def)
  have ft: "full_text (extract_sections text) = text" by (simp add: extract_sections_def)
  have t: "truncate_for_llm text max_tokens =
     (if int (length p) > max_tokens * 4 then py_take (max_tokens * 4) p
      else p @ [CHR 0x0A, CHR 0x0A] @ py_take (max_tokens * 4 - int (length p)) text)"
    using assms(1) unfolding truncate_for_llm_def Let_def h ft p_def by simp
  from assms(2) have le: "int (length p) \<le> max_tokens * 4"
    unfolding t p_def[symmetric] by (auto split: if_splits)
  then have "truncate_for_llm text max_tokens = p @ [CHR 0x0A, CHR 0x0A] @ py_take (max_tokens * 4 - int (length p)) text"
    unfolding t by simp
  moreover have "length (py_take (max_tokens * 4 - int (length p)) text) = nat (max_tokens * 4 - int (length p))"
    using le assms(1) by (simp add: py_take_def)
  ultimately show ?thesis using le by simp
qed

text \<open>
  Claim C9 says that the truncated text stays within the budget of \<open>4 * max_tokens\<close>
  characters. With a budget of 8 characters and a text of 9, the result has 10: four
  newlines for the empty header, decision and facts sections, the separator, and the
  first four characters of the text.
\<close>

theorem truncate_exceeds_budget:
  "truncate_for_llm ''abcdefghi'' 2 = ''\<newline>\<newline>\<newline>\<newline>\<newline>\<newline>abcd''
   \<and> int (length ''abcdefghi'') > 2 * 4
   \<and> int (length (truncate_for_llm ''abcdefghi'' 2)) = 2 * 4 + 2"
  by code_simp

section \<open>The heuristic extraction\<close>

lemma heuristic_summary_absent:
  assumes "heuristic_extract text = Inr (Some m)"
  shows "m ''resumo_5_linhas'' = Some None"
  using assms unfolding heuristic_extract_def Let_def
  by (clarsimp split: sum.splits if_splits)

text \<open>
  Claim C10 says that on every text the heuristic extraction returns absent or a
  mapping. On a text with the label \<open>defendant\<close> it raises instead: the first
  branch of the unparenthesised alternation matches, group 1 took no part, and
  \<open>m.group(1).strip()\<close> is applied to \<open>None\<close>.
\<close>

theorem heuristic_raises:
  "isl (heuristic_extract ''defendant: John'')"
  by code_simp

section \<open>The order of the parsing strategies\<close>

text \<open>
  The later strategies are reached when the strict parse gives nothing: a reply with bare
  carriage returns is refused by the reader and the embedded block decides; on an empty
  reply the heuristic extraction on the document decides.
\<close>

lemma later_strategies_reached:
  "Option.is_none (parse_csv_output
        (''Here it is:'' @ [CHR 0x0D] @ ''autor,reu,assunto_principal,tipo_decisao'' @ [CHR 0x0D]
          @ ''John,ACME,contract,judgment''))
   \<and> returned_fields (parse_strategies
        (''Here it is:'' @ [CHR 0x0D] @ ''autor,reu,assunto_principal,tipo_decisao'' @ [CHR 0x0D]
          @ ''John,ACME,contract,judgment'') ''Decided on 1/2/2021'')
     = Some [Some (Some ''John''), Some (Some ''ACME''), Some (Some ''contract''), Some (Some ''judgment''),
             Some None, Some None, Some None, Some None]
   \<and> returned_fields (parse_strategies [] ''Decided on 1/2/2021'') = heuristic_fields ''Decided on 1/2/2021''"
  by code_simp

text \<open>
  Claim C7 says that a reply which fails the strict parse but holds a CSV-dense pair of
  lines yields what the embedded-block extraction yields, and that a reply without
  CSV-like structure yields what the heuristic extraction yields on the document. The
  second strategy is written for a reply with text before or after the CSV. On such a
  reply, a line of prose followed by the exact header and a full row of values, the
  strict parse takes the prose for the header and the header for the row, and answers
  with a mapping of eight absent fields; \<open>if parsed:\<close> holds of it, so it is returned,
  although the embedded block is found and parses to all eight values. On two lines of
  prose without a comma the same mapping of eight absent fields is returned, and the
  heuristic extraction, which finds the date of the document, is never asked.
\<close>

theorem strict_parse_shadows_fallbacks:
  "returned_fields (parse_strategies
      ''Here is the CSV:\<newline>autor,reu,assunto_principal,tipo_decisao,resultado,resumo_5_linhas,data_decisao,tribunal\<newline>John Doe,ACME Corp,contract dispute,judgment,granted,Plaintiff prevailed.,15/03/2020,District Court''
      ''Decided on 1/2/2021'')
     = Some [Some None, Some None, Some None, Some None, Some None, Some None, Some None, Some None]
   \<and> extract_csv_block
      ''Here is the CSV:\<newline>autor,reu,assunto_principal,tipo_decisao,resultado,resumo_5_linhas,data_decisao,tribunal\<newline>John Doe,ACME Corp,contract dispute,judgment,granted,Plaintiff prevailed.,15/03/2020,District Court''
     = Some ''autor,reu,assunto_principal,tipo_decisao,resultado,resumo_5_linhas,data_decisao,tribunal\<newline>John Doe,ACME Corp,contract dispute,judgment,granted,Plaintiff prevailed.,15/03/2020,District Court''
   \<and> map_option fields_of (parse_csv_output
      ''autor,reu,assunto_principal,tipo_decisao,resultado,resumo_5_linhas,data_decisao,tribunal\<newline>John Doe,ACME Corp,contract dispute,judgment,granted,Plaintiff prevailed.,15/03/2020,District Court'')
     = Some [Some (Some ''John Doe''), Some (Some ''ACME Corp''), Some (Some ''contract dispute''),
             Some (Some ''judgment''), Some (Some ''granted''), Some (Some ''Plaintiff prevailed.''),
             Some (Some ''15/03/2020''), Some (Some ''District Court'')]
   \<and> py_count CHR '','' ''I could not read the document.\<newline>Sorry.'' = 0
   \<and> extract_csv_block ''I could not read the document.\<newline>Sorry.'' = None
   \<and> returned_fields (parse_strategies ''I could not read the document.\<newline>Sorry.'' ''Decided on 1/2/2021'')
     = Some [Some None, Some None, Some None, Some None, Some None, Some None, Some None, Some None]
   \<and> heuristic_fields ''Decided on 1/2/2021''
     = Some [Some None, Some None, Some None, Some None, Some None, Some None, Some (Some ''1/2/2021''), Some None]"
  by code_simp

section \<open>The retry loop\<close>

lemma attempt_loop_inv:
  assumes "1 \<le> a" "a \<le> b + 1" "n = nat (a - 1)"
    and "slept = map (\<lambda>k. 2 ^ k) [0..<min n (nat b - 1)]"
  shows "let r = attempt_loop client text b [a..b] slept n in
     calls r \<le> nat b
     \<and> sleeps r = map (\<lambda>k. 2 ^ k) [0..<calls r - 1]
     \<and> (\<forall>d. result r = Some d \<longrightarrow> n < calls r \<and> attempt_body (client (calls r)) text = Return d
            \<and> (\<forall>k. n < k \<and> k < calls r \<longrightarrow> (\<forall>d'. attempt_body (client k) text \<noteq> Return d')))
     \<and> (result r = None \<longrightarrow> calls r = nat b
            \<and> (\<forall>k. n < k \<and> k \<le> nat b \<longrightarrow> (\<forall>d'. attempt_body (client k) text \<noteq> Return d')))"
  using assms
proof (induction "nat (b + 1 - a)" arbitrary: a n slept)
  case 0
  then have "a = b + 1" by simp
  then have e: "[a..b] = []" by simp
  from 0 \<open>a = b + 1\<close> have n: "n = nat b" by simp
  show ?case unfolding e using 0 n by (auto simp: Let_def)
next
  case (Suc m)
  then have ab: "a \<le> b" by simp
  then have l: "[a..b] = a # [a + 1..b]" by (simp add: upto_rec1)
  from Suc.prems ab have n: "n = nat (a - 1)" "Suc n = nat a" "n < nat b" by auto
  have nb: "Suc n \<le> nat b" using n(3) by linarith
  have "min n (nat b - 1) = n" using n(3) by linarith
  then have sl: "slept = map (\<lambda>k. 2 ^ k) [0..<n]" using Suc.prems(4) by simp
  show ?case
  proof (cases "\<exists>d. attempt_body (client (Suc n)) text = Return d")
    case True
    then obtain d where d: "attempt_body (client (Suc n)) text = Return d" by blast
    show ?thesis unfolding l using d nb sl by (auto simp: Let_def)
  next
    case False
    define slept' where "slept' = (if a < b then slept @ [2 ^ nat (a - 1)] else slept)"
    have step: "attempt_loop client text b (a # [a + 1..b]) slept n
        = attempt_loop client text b [a + 1..b] slept' (Suc n)"
      using False by (cases "attempt_body (client (Suc n)) text") (simp_all add: slept'_def)
    have sl': "slept' = map (\<lambda>k. 2 ^ k) [0..<min (Suc n) (nat b - 1)]"
    proof (cases "a < b")
      case True
      then have mn: "min (Suc n) (nat b - 1) = Suc n" using n(1) Suc.prems(1) by linarith
      have "slept' = slept @ [2 ^ n]" using True by (simp add: slept'_def n(1))
      then show ?thesis unfolding mn sl by simp
    next
      case False
      with ab have "a = b" by simp
      then have mn: "min (Suc n) (nat b - 1) = n" using n(1) Suc.prems(1) by linarith
      have "slept' = slept" using False by (simp add: slept'_def)
      then show ?thesis unfolding mn sl by simp
    qed
    have m: "m = nat (b + 1 - (a + 1))" using Suc.hyps(2) by simp
    have IH: "let r = attempt_loop client text b [a + 1..b] slept' (Suc n) in
     calls r \<le> nat b
     \<and> sleeps r = map (\<lambda>k. 2 ^ k) [0..<calls r - 1]
     \<and> (\<forall>d. result r = Some d \<longrightarrow> Suc n < calls r \<and> attempt_body (client (calls r)) text = Return d
            \<and> (\<forall>k. Suc n < k \<and> k < calls r \<longrightarrow> (\<forall>d'. attempt_body (client k) text \<noteq> Return d')))
     \<and> (result r = None \<longrightarrow> calls r = nat b
            \<and> (\<forall>k. Suc n < k \<and> k \<le> nat b \<longrightarrow> (\<forall>d'. attempt_body (client k) text \<noteq> Return d')))"
      using Suc.hyps(1)[OF m, of "Suc n" slept'] Suc.prems ab n sl' by simp
    have k: "\<And>k. n < k \<Longrightarrow> k = Suc n \<or> Suc n < k" by auto
    show ?thesis unfolding l step using IH False
      by (auto simp: Let_def dest!: k)
  qed
qed

text \<open>
  Claim C2. \<open>extract_entities\<close> calls the model at most the configured number of times
  (5 by default, once without retry); an attempt whose call raises is a failed attempt
  like any other; after failed attempt \<open>k\<close>, unless it was the last one, it sleeps
  \<open>2 ^ (k - 1)\<close>; the first attempt that returns a mapping ends the run with that
  mapping; and when no attempt returns one, all attempts are made and the result is
  \<open>None\<close>.
\<close>

theorem retry_policy:
  "let r = extract_entities cfg client text retry;
       attempts = (if retry then MAX_RETRIES cfg else 1) in
     int (calls r) \<le> max 0 attempts
     \<and> sleeps r = map (\<lambda>k. 2 ^ k) [0..<calls r - 1]
     \<and> (\<forall>d. result r = Some d \<longrightarrow> 0 < calls r \<and> attempt_body (client (calls r)) text = Return d
            \<and> (\<forall>k. 0 < k \<and> k < calls r \<longrightarrow> (\<forall>d'. attempt_body (client k) text \<noteq> Return d')))
     \<and> (result r = None \<longrightarrow> calls r = nat attempts
            \<and> (\<forall>k. 0 < k \<and> k \<le> nat attempts \<longrightarrow> (\<forall>d'. attempt_body (client k) text \<noteq> Return d')))
     \<and> attempt_body Raises text = Caught
     \<and> MAX_RETRIES default_settings = 5"
proof -
  define attempts where "attempts = (if retry then MAX_RETRIES cfg else 1)"
  have ee: "extract_entities cfg client text retry = attempt_loop client text attempts [1..attempts] [] 0"
    by (simp add: extract_entities_def attempts_def Let_def)
  have misc: "attempt_body Raises text = Caught" "MAX_RETRIES default_settings = 5"
    by (simp_all add: attempt_body_def default_settings_def)
  show ?thesis
  proof (cases "0 \<le> attempts")
    case True
    have "let r = attempt_loop client text attempts [1..attempts] [] 0 in
     calls r \<le> nat attempts
     \<and> sleeps r = map (\<lambda>k. 2 ^ k) [0..<calls r - 1]
     \<and> (\<forall>d. result r = Some d \<longrightarrow> 0 < calls r \<and> attempt_body (client (calls r)) text = Return d
            \<and> (\<forall>k. 0 < k \<and> k < calls r \<longrightarrow> (\<forall>d'. attempt_body (client k) text \<noteq> Return d')))
     \<and> (result r = None \<longrightarrow> calls r = nat attempts
            \<and> (\<forall>k. 0 < k \<and> k \<le> nat attempts \<longrightarrow> (\<forall>d'. attempt_body (client k) text \<noteq> Return d')))"
      using attempt_loop_inv[of 1 attempts 0 "[]" client "text"] True by simp
    then show ?thesis
      unfolding ee attempts_def[symmetric] Let_def using True misc by auto
  next
    case False
    then have "[1..attempts] = []" by simp
    then show ?thesis
      unfolding ee attempts_def[symmetric] Let_def using False misc by simp
  qed
qed


text \<open>
  Four failures of the model and then the reply of scenario A; and a model that always
  fails.
\<close>

theorem retry_policy_witness:
  "(let r = extract_entities default_settings
        (\<lambda>n. if n < 5 then Raises else Responds \<lparr> resp_text = Some
           (''autor,reu,assunto_principal,tipo_decisao,resultado,resumo_5_linhas,data_decisao,tribunal\<newline>''
            @ ''John Doe,ACME Corp,contract dispute,judgment,granted,Plaintiff prevailed.,15/03/2020,District Court''),
           resp_candidates = [], resp_parsed = [] \<rparr>) ''document'' True
    in calls r = 5 \<and> sleeps r = [1, 2, 4, 8]
       \<and> (\<exists>d. result r = Some d \<and> fields_of d = [Some (Some ''John Doe''), Some (Some ''ACME Corp''),
             Some (Some ''contract dispute''), Some (Some ''judgment''), Some (Some ''granted''),
             Some (Some ''Plaintiff prevailed.''), Some (Some ''15/03/2020''), Some (Some ''District Court'')]))
   \<and> (let r = extract_entities default_settings (\<lambda>n. Raises) ''document'' True
      in result r = None \<and> calls r = 5 \<and> sleeps r = [1, 2, 4, 8])"
proof -
  let ?c = "\<lambda>n::nat. if n < 5 then Raises else Responds \<lparr> resp_text = Some
           (''autor,reu,assunto_principal,tipo_decisao,resultado,resumo_5_linhas,data_decisao,tribunal\<newline>''
            @ ''John Doe,ACME Corp,contract dispute,judgment,granted,Plaintiff prevailed.,15/03/2020,District Court''),
           resp_candidates = [], resp_parsed = [] \<rparr>"
  let ?r = "extract_entities default_settings ?c ''document'' True"
  let ?f = "extract_entities default_settings (\<lambda>n. Raises) ''document'' True"
  have e: "calls ?r = 5 \<and> map_option fields_of (result ?r) = Some [Some (Some ''John Doe''), Some (Some ''ACME Corp''),
             Some (Some ''contract dispute''), Some (Some ''judgment''), Some (Some ''granted''),
             Some (Some ''Plaintiff prevailed.''), Some (Some ''15/03/2020''), Some (Some ''District Court'')]"
    by code_simp
  have f: "Option.is_none (result ?f)" by code_simp
  then have f': "result ?f = None" by (simp add: Option.is_none_def)
  have m: "MAX_RETRIES default_settings = 5" by (simp add: default_settings_def)
  from e have es: "sleeps ?r = [1, 2, 4, 8]"
    using retry_policy[of default_settings ?c "''document''" True]
    by (simp add: Let_def upt_rec)
  from f' have fs: "calls ?f = 5 \<and> sleeps ?f = [1, 2, 4, 8]"
    using retry_policy[of default_settings "\<lambda>n. Raises" "''document''" True]
    by (simp add: Let_def m upt_rec)
  from e obtain d where "result ?r = Some d" "fields_of d = [Some (Some ''John Doe''), Some (Some ''ACME Corp''),
             Some (Some ''contract dispute''), Some (Some ''judgment''), Some (Some ''granted''),
             Some (Some ''Plaintiff prevailed.''), Some (Some ''15/03/2020''), Some (Some ''District Court'')]"
    by (cases "result ?r") auto
  with e es f' fs show ?thesis unfolding Let_def by blast
qed

section \<open>The csv reader on the writer's output\<close>

lemma process_chars_run:
  "process_chars r s = (case run_chars r s of None \<Rightarrow> None | Some r' \<Rightarrow> parse_process_char r' None)"
  by (induction s arbitrary: r) (auto split: option.splits)

lemma run_chars_append:
  "run_chars r (s @ t) = (case run_chars r s of None \<Rightarrow> None | Some r' \<Rightarrow> run_chars r' t)"
  by (induction s arbitrary: r) (auto split: option.splits)

lemma run_unquoted:
  assumes "\<forall>c \<in> set f. \<not> needs_quote c" "int (length (g @ f)) \<le> field_limit"
  shows "run_chars \<lparr>rstate = IN_FIELD, rfields = fs, rfield = g\<rparr> f
       = Some \<lparr>rstate = IN_FIELD, rfields = fs, rfield = g @ f\<rparr>"
  using assms
proof (induction f arbitrary: g)
  case Nil
  then show ?case by simp
next
  case (Cons c f)
  from Cons.prems have c: "\<not> is_crnl c" "c \<noteq> CHR '',''" "c \<noteq> CHR 0x22"
    by (auto simp: needs_quote_def is_crnl_def)
  from Cons.prems have l: "\<not> field_limit \<le> int (length g)" by simp
  have "parse_process_char \<lparr>rstate = IN_FIELD, rfields = fs, rfield = g\<rparr> (Some c)
      = Some \<lparr>rstate = IN_FIELD, rfields = fs, rfield = g @ [c]\<rparr>"
    using c l by (simp add: parse_process_char_def parse_add_char_def)
  moreover have "run_chars \<lparr>rstate = IN_FIELD, rfields = fs, rfield = g @ [c]\<rparr> f
      = Some \<lparr>rstate = IN_FIELD, rfields = fs, rfield = (g @ [c]) @ f\<rparr>"
    using Cons.prems by (intro Cons.IH) auto
  ultimately show ?case by simp
qed

lemma run_quoted:
  assumes "int (length (g @ f)) \<le> field_limit"
  shows "run_chars \<lparr>rstate = IN_QUOTED_FIELD, rfields = fs, rfield = g\<rparr> (dbl f)
       = Some \<lparr>rstate = IN_QUOTED_FIELD, rfields = fs, rfield = g @ f\<rparr>"
  using assms
proof (induction f arbitrary: g)
  case Nil
  then show ?case by (simp add: dbl_def)
next
  case (Cons c f)
  from Cons.prems have l: "\<not> field_limit \<le> int (length g)" by simp
  have IH: "run_chars \<lparr>rstate = IN_QUOTED_FIELD, rfields = fs, rfield = g @ [c]\<rparr> (dbl f)
      = Some \<lparr>rstate = IN_QUOTED_FIELD, rfields = fs, rfield = (g @ [c]) @ f\<rparr>"
    using Cons.prems by (intro Cons.IH) auto
  show ?case
  proof (cases "c = CHR 0x22")
    case True
    have "dbl (c # f) = c # c # dbl f" using True by (simp add: dbl_def)
    then show ?thesis using True l IH
      by (simp add: parse_process_char_def parse_add_char_def)
  next
    case False
    have "dbl (c # f) = c # dbl f" using False by (simp add: dbl_def)
    then show ?thesis using False l IH
      by (simp add: parse_process_char_def parse_add_char_def)
  qed
qed

text \<open>A written field followed by the delimiter, read at the start of a record or a field.\<close>

lemma read_field_comma:
  assumes "st = START_RECORD \<or> st = START_FIELD" "int (length f) \<le> field_limit"
  shows "run_chars \<lparr>rstate = st, rfields = fs, rfield = []\<rparr> (csv_quote_field f @ '','')
       = Some \<lparr>rstate = START_FIELD, rfields = fs @ [f], rfield = []\<rparr>"
proof (cases "list_ex needs_quote f")
  case True
  then have q: "csv_quote_field f @ '','' = CHR 0x22 # (dbl f @ [CHR 0x22, CHR '',''])"
    by (simp add: csv_quote_field_def dbl_def)
  have s: "parse_process_char \<lparr>rstate = st, rfields = fs, rfield = []\<rparr> (Some CHR 0x22)
      = Some \<lparr>rstate = IN_QUOTED_FIELD, rfields = fs, rfield = []\<rparr>"
    using assms(1) by (auto simp: parse_process_char_def start_field_def is_crnl_def)
  have m: "run_chars \<lparr>rstate = IN_QUOTED_FIELD, rfields = fs, rfield = []\<rparr> (dbl f)
      = Some \<lparr>rstate = IN_QUOTED_FIELD, rfields = fs, rfield = f\<rparr>"
    using run_quoted[of "[]" f fs] assms(2) by simp
  have "run_chars \<lparr>rstate = st, rfields = fs, rfield = []\<rparr> (CHR 0x22 # (dbl f @ [CHR 0x22, CHR '','']))
      = run_chars \<lparr>rstate = IN_QUOTED_FIELD, rfields = fs, rfield = []\<rparr> (dbl f @ [CHR 0x22, CHR '',''])"
    using s by simp
  also have "\<dots> = Some \<lparr>rstate = START_FIELD, rfields = fs @ [f], rfield = []\<rparr>"
    by (simp add: run_chars_append m parse_process_char_def parse_save_field_def)
  finally show ?thesis unfolding q .
next
  case False
  then have nq: "\<forall>c \<in> set f. \<not> needs_quote c" by (simp add: list_ex_iff)
  from False have q: "csv_quote_field f = f" by (simp add: csv_quote_field_def)
  show ?thesis
  proof (cases f)
    case Nil
    then show ?thesis unfolding q using assms(1)
      by (auto simp: parse_process_char_def start_field_def is_crnl_def parse_save_field_def)
  next
    case (Cons c f')
    from nq Cons have c: "\<not> is_crnl c" "c \<noteq> CHR '',''" "c \<noteq> CHR 0x22"
      by (auto simp: needs_quote_def is_crnl_def)
    have s: "parse_process_char \<lparr>rstate = st, rfields = fs, rfield = []\<rparr> (Some c)
      = Some \<lparr>rstate = IN_FIELD, rfields = fs, rfield = [c]\<rparr>"
      using assms(1) c by (auto simp: parse_process_char_def start_field_def parse_add_char_def field_limit_def)
    have m: "run_chars \<lparr>rstate = IN_FIELD, rfields = fs, rfield = [c]\<rparr> f'
      = Some \<lparr>rstate = IN_FIELD, rfields = fs, rfield = [c] @ f'\<rparr>"
      using nq Cons assms(2) by (intro run_unquoted) auto
    have "run_chars \<lparr>rstate = st, rfields = fs, rfield = []\<rparr> ((c # f') @ '','')
      = run_chars \<lparr>rstate = IN_FIELD, rfields = fs, rfield = [c]\<rparr> (f' @ '','')"
      using s by simp
    also have "\<dots> = Some \<lparr>rstate = START_FIELD, rfields = fs @ [c # f'], rfield = []\<rparr>"
      by (simp add: run_chars_append m parse_process_char_def parse_save_field_def is_crnl_def)
    finally show ?thesis using q Cons by simp
  qed
qed

text \<open>The last written field and the newline, read at the start of a field.\<close>

lemma read_field_newline:
  assumes "int (length f) \<le> field_limit"
  shows "process_chars \<lparr>rstate = START_FIELD, rfields = fs, rfield = []\<rparr> (csv_quote_field f @ [CHR 0x0A])
       = Some \<lparr>rstate = START_RECORD, rfields = fs @ [f], rfield = []\<rparr>"
proof (cases "list_ex needs_quote f")
  case True
  then have q: "csv_quote_field f @ [CHR 0x0A] = CHR 0x22 # (dbl f @ [CHR 0x22, CHR 0x0A])"
    by (simp add: csv_quote_field_def dbl_def)
  have m: "run_chars \<lparr>rstate = IN_QUOTED_FIELD, rfields = fs, rfield = []\<rparr> (dbl f)
      = Some \<lparr>rstate = IN_QUOTED_FIELD, rfields = fs, rfield = f\<rparr>"
    using run_quoted[of "[]" f fs] assms by simp
  show ?thesis unfolding q process_chars_run
    by (simp add: run_chars_append m parse_process_char_def start_field_def parse_save_field_def is_crnl_def)
next
  case False
  then have nq: "\<forall>c \<in> set f. \<not> needs_quote c" by (simp add: list_ex_iff)
  from False have q: "csv_quote_field f = f" by (simp add: csv_quote_field_def)
  show ?thesis
  proof (cases f)
    case Nil
    then show ?thesis unfolding q process_chars_run
      by (simp add: parse_process_char_def start_field_def is_crnl_def parse_save_field_def)
  next
    case (Cons c f')
    from nq Cons have c: "\<not> is_crnl c" "c \<noteq> CHR '',''" "c \<noteq> CHR 0x22"
      by (auto simp: needs_quote_def is_crnl_def)
    have s: "parse_process_char \<lparr>rstate = START_FIELD, rfields = fs, rfield = []\<rparr> (Some c)
      = Some \<lparr>rstate = IN_FIELD, rfields = fs, rfield = [c]\<rparr>"
      using c by (auto simp: parse_process_char_def start_field_def parse_add_char_def field_limit_def)
    have m: "run_chars \<lparr>rstate = IN_FIELD, rfields = fs, rfield = [c]\<rparr> f'
      = Some \<lparr>rstate = IN_FIELD, rfields = fs, rfield = [c] @ f'\<rparr>"
      using nq Cons assms by (intro run_unquoted) auto
    have "run_chars \<lparr>rstate = START_FIELD, rfields = fs, rfield = []\<rparr> ((c # f') @ [CHR 0x0A])
      = run_chars \<lparr>rstate = IN_FIELD, rfields = fs, rfield = [c]\<rparr> (f' @ [CHR 0x0A])"
      using s by simp
    also have "\<dots> = Some \<lparr>rstate = EAT_CRNL, rfields = fs @ [c # f'], rfield = []\<rparr>"
      by (simp add: run_chars_append m parse_process_char_def parse_save_field_def is_crnl_def)
    finally have "run_chars \<lparr>rstate = START_FIELD, rfields = fs, rfield = []\<rparr> (csv_quote_field f @ [CHR 0x0A])
      = Some \<lparr>rstate = EAT_CRNL, rfields = fs @ [f], rfield = []\<rparr>"
      using q Cons by simp
    then show ?thesis unfolding process_chars_run
      by (simp add: parse_process_char_def)
  qed
qed

lemma process_chars_append:
  "process_chars r (s @ t) = (case run_chars r s of None \<Rightarrow> None | Some r' \<Rightarrow> process_chars r' t)"
  by (simp add: process_chars_run run_chars_append split: option.splits)

text \<open>A written row of at least two fields, read as one line.\<close>

lemma read_row_from:
  assumes "st = START_RECORD \<or> st = START_FIELD" "row \<noteq> []"
    "\<forall>f \<in> set (f0 # row). int (length f) \<le> field_limit"
  shows "process_chars \<lparr>rstate = st, rfields = fs, rfield = []\<rparr>
           (py_join '','' (map csv_quote_field (f0 # row)) @ [CHR 0x0A])
       = Some \<lparr>rstate = START_RECORD, rfields = fs @ f0 # row, rfield = []\<rparr>"
  using assms
proof (induction row arbitrary: st fs f0)
  case Nil
  then show ?case by simp
next
  case (Cons f1 row)
  have j: "py_join '','' (map csv_quote_field (f0 # f1 # row)) @ [CHR 0x0A]
      = (csv_quote_field f0 @ '','') @ (py_join '','' (map csv_quote_field (f1 # row)) @ [CHR 0x0A])"
    by simp
  have h: "run_chars \<lparr>rstate = st, rfields = fs, rfield = []\<rparr> (csv_quote_field f0 @ '','')
       = Some \<lparr>rstate = START_FIELD, rfields = fs @ [f0], rfield = []\<rparr>"
    using Cons.prems by (intro read_field_comma) auto
  show ?case
  proof (cases row)
    case Nil
    have "process_chars \<lparr>rstate = START_FIELD, rfields = fs @ [f0], rfield = []\<rparr> (csv_quote_field f1 @ [CHR 0x0A])
       = Some \<lparr>rstate = START_RECORD, rfields = (fs @ [f0]) @ [f1], rfield = []\<rparr>"
      using Cons.prems by (intro read_field_newline) auto
    then show ?thesis unfolding j process_chars_append h using Nil by simp
  next
    case (Cons f2 row')
    have "process_chars \<lparr>rstate = START_FIELD, rfields = fs @ [f0], rfield = []\<rparr>
           (py_join '','' (map csv_quote_field (f1 # row)) @ [CHR 0x0A])
       = Some \<lparr>rstate = START_RECORD, rfields = (fs @ [f0]) @ f1 # row, rfield = []\<rparr>"
      using Cons.prems Cons by (intro Cons.IH) auto
    then show ?thesis unfolding j process_chars_append h by simp
  qed
qed

lemma reader_next_row:
  assumes "row \<noteq> []" "\<forall>f \<in> set (f0 # row). int (length f) \<le> field_limit"
  shows "reader_next ((py_join '','' (map csv_quote_field (f0 # row)) @ [CHR 0x0A]) # lines)
       = Inr (Some (f0 # row), lines)"
  using read_row_from[of START_RECORD row f0 "[]"] assms
  by (simp add: reader_next_def)

section \<open>Escaping, stripping, splitting\<close>

lemma esc_concat: "esc v = concat (map (\<lambda>c. if c = CHR 0x0A then [CHR 0x5C, CHR ''n''] else [c]) v)"
  unfolding esc_def by (induction v) auto

lemma esc_no_newline: "CHR 0x0A \<notin> set (esc v)"
  by (auto simp: esc_concat)

lemma esc_Nil_iff: "esc v = [] \<longleftrightarrow> v = []"
  by (cases v) (auto simp: esc_concat)

lemma esc_length: "length (esc v) = length v + py_count CHR 0x0A v"
  by (induction v) (auto simp: esc_concat py_count_def)

lemma unesc_esc:
  "\<not> py_in [CHR 0x5C, CHR ''n''] v \<Longrightarrow> py_replace [CHR 0x5C, CHR ''n''] [CHR 0x0A] (esc v) = v"
proof (induction v)
  case Nil
  then show ?case by (simp add: esc_concat)
next
  case (Cons c v)
  then have IH: "py_replace [CHR 0x5C, CHR ''n''] [CHR 0x0A] (esc v) = v" by simp
  show ?case
  proof (cases "c = CHR 0x0A")
    case True
    then have "esc (c # v) = CHR 0x5C # CHR ''n'' # esc v" by (simp add: esc_concat)
    then show ?thesis using IH True by simp
  next
    case False
    then have e: "esc (c # v) = c # esc v" by (simp add: esc_concat)
    have "\<not> prefix [CHR 0x5C, CHR ''n''] (c # esc v)"
    proof
      assume p: "prefix [CHR 0x5C, CHR ''n''] (c # esc v)"
      then have c: "c = CHR 0x5C" and "prefix [CHR ''n''] (esc v)" by auto
      then obtain w where w: "esc v = CHR ''n'' # w" by (auto simp: prefix_def)
      then have "v \<noteq> []" by (auto simp: esc_concat)
      then obtain x v' where v: "v = x # v'" by (cases v) auto
      with w have "x = CHR ''n''" by (auto simp: esc_concat split: if_splits)
      with v c Cons.prems show False by simp
    qed
    then have nc: "\<not> ([CHR 0x5C, CHR ''n''] \<noteq> [] \<and> prefix [CHR 0x5C, CHR ''n''] (c # esc v))" by blast
    show ?thesis unfolding e
      by (subst py_replace.simps(2), subst if_not_P[OF nc], simp only: IH)
  qed
qed

lemma replace_crlf_id: "CHR 0x0A \<notin> set s \<Longrightarrow> py_replace [CHR 0x0D, CHR 0x0A] [CHR 0x0A] s = s"
proof (induction s)
  case Nil
  then show ?case by simp
next
  case (Cons c s)
  then have "\<not> prefix [CHR 0x0D, CHR 0x0A] (c # s)" by (cases s) auto
  with Cons show ?case by simp
qed

lemma dropWhile_rev_last: "s \<noteq> [] \<Longrightarrow> \<not> P (last s) \<Longrightarrow> dropWhile P (rev s) = rev s"
  by (induction s rule: rev_induct) auto

lemma strip_id: "s \<noteq> [] \<Longrightarrow> \<not> py_isspace (hd s) \<Longrightarrow> \<not> py_isspace (last s) \<Longrightarrow> py_strip s = s"
proof -
  assume a: "s \<noteq> []" "\<not> py_isspace (hd s)" "\<not> py_isspace (last s)"
  then have 1: "dropWhile py_isspace s = s" by (cases s) auto
  from a have 2: "dropWhile py_isspace (rev s) = rev s" by (simp add: dropWhile_rev_last)
  show ?thesis by (simp add: py_strip_def 1 2)
qed

lemma strip_crlf:
  "s \<noteq> [] \<Longrightarrow> \<not> py_isspace (hd s) \<Longrightarrow> \<not> py_isspace (last s) \<Longrightarrow> py_strip (s @ [CHR 0x0D, CHR 0x0A]) = s"
proof -
  assume a: "s \<noteq> []" "\<not> py_isspace (hd s)" "\<not> py_isspace (last s)"
  then have 1: "dropWhile py_isspace (s @ [CHR 0x0D, CHR 0x0A]) = s @ [CHR 0x0D, CHR 0x0A]"
    by (cases s) auto
  from a have 2: "dropWhile py_isspace (rev s) = rev s" by (simp add: dropWhile_rev_last)
  have 3: "py_isspace CHR 0x0D" "py_isspace CHR 0x0A" by (simp_all add: py_isspace_def)
  show ?thesis by (simp add: py_strip_def 1 2 3)
qed

lemma split_single: "sep \<notin> set s \<Longrightarrow> py_split sep s = [s]"
  by (induction s) auto

lemma stringio_acc_no_newline:
  "CHR 0x0A \<notin> set s \<Longrightarrow> stringio_lines_acc cur (s @ CHR 0x0A # rest) = (cur @ s @ [CHR 0x0A]) # stringio_lines_acc [] rest"
  by (induction s arbitrary: cur) auto

lemma stringio_two_lines:
  "CHR 0x0A \<notin> set h \<Longrightarrow> CHR 0x0A \<notin> set l \<Longrightarrow>
     stringio_lines (h @ [CHR 0x0A] @ l @ [CHR 0x0A]) = [h @ [CHR 0x0A], l @ [CHR 0x0A]]"
  using stringio_acc_no_newline[of h "[]" "l @ [CHR 0x0A]"] stringio_acc_no_newline[of l "[]" "[]"]
  by (simp add: stringio_lines_def)

lemma map_of_rev_keys:
  "map_of (rev (map (\<lambda>k. (k, g k)) ks)) k = (if k \<in> set ks then Some (g k) else None)"
  by (induction ks) (auto simp: map_of_append map_add_def split: option.splits)

lemma map_of_keys_cong:
  "(\<And>k. k \<in> set ks \<Longrightarrow> f k = g k) \<Longrightarrow> map_of (map (\<lambda>k. (k, f k)) ks) = map_of (map (\<lambda>k. (k, g k)) ks)"
  by (rule arg_cong[where f = map_of]) simp

section \<open>The edges of a written row\<close>

lemma quote_field_edges:
  assumes "f \<noteq> []" "\<not> py_isspace (hd f)" "\<not> py_isspace (last f)"
  shows "csv_quote_field f \<noteq> [] \<and> \<not> py_isspace (hd (csv_quote_field f)) \<and> \<not> py_isspace (last (csv_quote_field f))"
  using assms by (auto simp: csv_quote_field_def py_isspace_def)

lemma join_edges:
  assumes "row \<noteq> []" "\<forall>f \<in> set (f0 # row). f = [] \<or> (\<not> py_isspace (hd f) \<and> \<not> py_isspace (last f))"
  shows "py_join '','' (map csv_quote_field (f0 # row)) \<noteq> []
     \<and> \<not> py_isspace (hd (py_join '','' (map csv_quote_field (f0 # row))))
     \<and> \<not> py_isspace (last (py_join '','' (map csv_quote_field (f0 # row))))"
  using assms
proof (induction row arbitrary: f0)
  case Nil
  then show ?case by simp
next
  case (Cons f1 row)
  have comma: "\<not> py_isspace CHR '',''" by (simp add: py_isspace_def)
  have q0: "csv_quote_field f0 = [] \<or> \<not> py_isspace (hd (csv_quote_field f0))"
    using Cons.prems quote_field_edges[of f0] by (cases "f0 = []") (auto simp: csv_quote_field_def)
  have j: "py_join '','' (map csv_quote_field (f0 # f1 # row))
      = csv_quote_field f0 @ '','' @ py_join '','' (map csv_quote_field (f1 # row))" by simp
  have hd0: "\<not> py_isspace (hd (csv_quote_field f0 @ '','' @ py_join '','' (map csv_quote_field (f1 # row))))"
    using q0 comma by (cases "csv_quote_field f0") auto
  show ?case
  proof (cases row)
    case Nil
    have q1: "csv_quote_field f1 = [] \<or> \<not> py_isspace (last (csv_quote_field f1))"
      using Cons.prems quote_field_edges[of f1] by (cases "f1 = []") (auto simp: csv_quote_field_def)
    have "\<not> py_isspace (last (csv_quote_field f0 @ '','' @ csv_quote_field f1))"
      using q1 comma by (cases "csv_quote_field f1 = []") auto
    with hd0 show ?thesis unfolding j using Nil by simp
  next
    case (Cons f2 row')
    have IH: "py_join '','' (map csv_quote_field (f1 # row)) \<noteq> []
     \<and> \<not> py_isspace (last (py_join '','' (map csv_quote_field (f1 # row))))"
      using Cons.IH[of f1] Cons.prems Cons by auto
    with hd0 show ?thesis unfolding j by simp
  qed
qed

section \<open>The round trip of the wire format\<close>

lemma esc_edges:
  assumes "v \<noteq> []" "edge_ok (hd v)" "edge_ok (last v)"
  shows "\<not> py_isspace (hd (esc v)) \<and> \<not> py_isspace (last (esc v))"
proof -
  have bs: "\<not> py_isspace CHR 0x5C" "\<not> py_isspace CHR ''n''" by (simp_all add: py_isspace_def)
  from assms obtain c v' where v: "v = c # v'" by (cases v) auto
  have h: "\<not> py_isspace (hd (esc v))"
    using assms(2) bs unfolding v by (auto simp: esc_concat edge_ok_def)
  from assms obtain w x where w: "v = w @ [x]" by (metis append_butlast_last_id)
  have l: "\<not> py_isspace (last (esc v))"
    using assms(3) bs unfolding w by (auto simp: esc_concat edge_ok_def)
  from h l show ?thesis by simp
qed

lemma quote_field_no_newline: "CHR 0x0A \<notin> set f \<Longrightarrow> CHR 0x0A \<notin> set (csv_quote_field f)"
  by (auto simp: csv_quote_field_def split: if_splits)

lemma join_no_newline: "\<forall>x \<in> set xs. CHR 0x0A \<notin> set x \<Longrightarrow> CHR 0x0A \<notin> set (py_join '','' xs)"
  by (induction "'',''" xs rule: py_join.induct) auto

lemma zip_map_self: "zip xs (map f xs) = map (\<lambda>x. (x, f x)) xs"
  by (induction xs) auto

lemma quote_plain: "\<not> list_ex needs_quote f \<Longrightarrow> csv_quote_field f = f"
  by (simp add: csv_quote_field_def)

lemma header_row: "reader_next ((py_join '','' CSV_FIELDS @ [CHR 0x0A]) # lines) = Inr (Some CSV_FIELDS, lines)"
proof -
  have q: "map csv_quote_field CSV_FIELDS = CSV_FIELDS"
    by (simp add: CSV_FIELDS_def csv_quote_field_def needs_quote_def)
  have "reader_next ((py_join '','' (map csv_quote_field CSV_FIELDS) @ [CHR 0x0A]) # lines) = Inr (Some CSV_FIELDS, lines)"
    unfolding CSV_FIELDS_def by (rule reader_next_row) (simp_all add: field_limit_def)
  then show ?thesis unfolding q .
qed

lemma header_no_newline: "CHR 0x0A \<notin> set (py_join '','' CSV_FIELDS)"
  by (simp add: CSV_FIELDS_def)

text \<open>
  Claim C1, amended. For every mapping whose present canonical values are non-empty, have
  no whitespace other than a newline at either end, hold no backslash followed by
  \<open>n\<close> and fit the reader's field limit, \<open>_parse_csv_output\<close> of
  \<open>dict_to_csv_line\<close> gives the mapping back on the eight canonical fields, whatever
  commas, quotes and newlines the values hold.
\<close>

theorem csv_round_trip:
  assumes "\<forall>k \<in> set CSV_FIELDS. \<forall>v. dict_get d k = Some v \<longrightarrow> wire_safe v"
  shows "parse_csv_output (dict_to_csv_line d) = Some (map_of (map (\<lambda>k. (k, dict_get d k)) CSV_FIELDS))
       \<and> (dom d = set CSV_FIELDS \<longrightarrow> parse_csv_output (dict_to_csv_line d) = Some d)"
proof -
  define e where "e = (\<lambda>k. case dict_get d k of None \<Rightarrow> [] | Some v \<Rightarrow> esc v)"
  define row where "row = map e CSV_FIELDS"
  define line where "line = py_join '','' (map csv_quote_field row)"
  have ek: "CHR 0x0A \<notin> set (e k) \<and> int (length (e k)) \<le> field_limit
      \<and> (e k = [] \<or> (\<not> py_isspace (hd (e k)) \<and> \<not> py_isspace (last (e k))))
      \<and> (let v' = py_replace [CHR 0x5C, CHR ''n''] [CHR 0x0A] (py_strip (e k))
          in if v' \<noteq> [] then Some v' else None) = dict_get d k"
    if k: "k \<in> set CSV_FIELDS" for k
  proof (cases "dict_get d k")
    case None
    then show ?thesis by (simp add: e_def field_limit_def py_strip_def)
  next
    case (Some v)
    with assms k have w: "wire_safe v" by blast
    then have ed: "\<not> py_isspace (hd (esc v)) \<and> \<not> py_isspace (last (esc v))"
      by (intro esc_edges) (simp_all add: wire_safe_def)
    from w have ne: "esc v \<noteq> []" by (simp add: wire_safe_def esc_Nil_iff)
    have st: "py_strip (esc v) = esc v" using ne ed by (intro strip_id) auto
    from w have un: "py_replace [CHR 0x5C, CHR ''n''] [CHR 0x0A] (esc v) = v"
      by (intro unesc_esc) (simp add: wire_safe_def)
    from w have len: "int (length (esc v)) \<le> field_limit"
      by (simp add: wire_safe_def esc_length field_limit_def)
    from w have vne: "v \<noteq> []" by (simp add: wire_safe_def)
    show ?thesis using Some esc_no_newline[of v] len ed st un vne
      by (simp add: e_def)
  qed
  obtain f0 rest where rw: "row = f0 # rest" and rest: "rest \<noteq> []"
    by (simp add: row_def CSV_FIELDS_def)
  have rowset: "\<forall>f \<in> set row. CHR 0x0A \<notin> set f \<and> int (length f) \<le> field_limit
      \<and> (f = [] \<or> (\<not> py_isspace (hd f) \<and> \<not> py_isspace (last f)))"
    using ek by (auto simp: row_def)
  have rowset': "\<forall>f \<in> set (f0 # rest). f = [] \<or> (\<not> py_isspace (hd f) \<and> \<not> py_isspace (last f))"
    "\<forall>f \<in> set (f0 # rest). int (length f) \<le> field_limit"
    using rowset unfolding rw by blast+
  have edges: "line \<noteq> [] \<and> \<not> py_isspace (hd line) \<and> \<not> py_isspace (last line)"
    unfolding line_def rw using rest rowset'(1) by (rule join_edges)
  have nonl: "CHR 0x0A \<notin> set line"
    unfolding line_def
  proof (rule join_no_newline, rule ballI)
    fix x assume "x \<in> set (map csv_quote_field row)"
    then obtain f where "f \<in> set row" "x = csv_quote_field f" by auto
    with rowset show "CHR 0x0A \<notin> set x" using quote_field_no_newline by blast
  qed
  have "row \<noteq> [[]]" unfolding rw using rest by simp
  moreover have "dict_to_csv_line d = py_strip (csv_writerow row)"
    unfolding dict_to_csv_line_def row_def e_def esc_def ..
  ultimately have "dict_to_csv_line d = py_strip (line @ [CHR 0x0D, CHR 0x0A])"
    by (simp add: csv_writerow_def line_def)
  then have enc: "dict_to_csv_line d = line"
    using edges by (simp add: strip_crlf)
  have sl: "py_strip line = line" using edges by (intro strip_id) auto
  have lines: "filter (\<lambda>ln. py_strip ln \<noteq> []) (py_split CHR 0x0A (py_strip (py_replace [CHR 0x0D, CHR 0x0A] [CHR 0x0A] line)))
       = [line]"
    using edges nonl by (simp add: replace_crlf_id sl split_single)
  have p: "parse_csv_output line = parse_rows (py_join '','' CSV_FIELDS) line"
    using edges by (simp add: parse_csv_output_def lines sl Let_def)
  have io: "stringio_lines (py_join '','' CSV_FIELDS @ [CHR 0x0A] @ line @ [CHR 0x0A])
      = [py_join '','' CSV_FIELDS @ [CHR 0x0A], line @ [CHR 0x0A]]"
    using header_no_newline nonl by (rule stringio_two_lines)
  have r2: "reader_next [line @ [CHR 0x0A]] = Inr (Some row, [])"
    unfolding line_def rw using rest rowset'(2) by (rule reader_next_row)
  have rne: "row \<noteq> []" unfolding rw by simp
  have lr: "drop (length row) CSV_FIELDS = []" by (simp add: row_def)
  have dr: "dictreader_first (py_join '','' CSV_FIELDS @ [CHR 0x0A] @ line @ [CHR 0x0A])
      = Inr (Some (map_of (rev (map (\<lambda>k. (k, Some (e k))) CSV_FIELDS))))"
    unfolding dictreader_first_def io header_row
    by (simp add: r2 rne lr) (simp add: row_def zip_map_self)
  have look: "map_of (rev (map (\<lambda>k. (k, Some (e k))) CSV_FIELDS)) k = Some (Some (e k))"
    if "k \<in> set CSV_FIELDS" for k
    using that by (simp add: map_of_rev_keys)
  have "parse_rows (py_join '','' CSV_FIELDS) line
      = Some (map_of (map (\<lambda>k. (k, dict_get d k)) CSV_FIELDS))"
    unfolding parse_rows_def dr normalize_row_def
    by (simp, rule map_of_keys_cong) (simp add: look ek)
  then have main: "parse_csv_output (dict_to_csv_line d) = Some (map_of (map (\<lambda>k. (k, dict_get d k)) CSV_FIELDS))"
    unfolding enc p .
  have "map_of (map (\<lambda>k. (k, dict_get d k)) CSV_FIELDS) = d" if dom: "dom d = set CSV_FIELDS"
  proof
    fix k
    show "map_of (map (\<lambda>k. (k, dict_get d k)) CSV_FIELDS) k = d k"
    proof (cases "k \<in> set CSV_FIELDS")
      case True
      then obtain y where "d k = Some y" using dom by auto
      moreover have "map_of (map (\<lambda>k. (k, dict_get d k)) CSV_FIELDS) k = Some (dict_get d k)"
        using True by (simp add: map_of_map_restrict restrict_map_def)
      ultimately show ?thesis by (simp add: dict_get_def)
    next
      case False
      then have "d k = None" using dom by auto
      moreover have "map_of (map (\<lambda>k. (k, dict_get d k)) CSV_FIELDS) k = None"
        using False by (simp add: map_of_map_restrict restrict_map_def)
      ultimately show ?thesis by simp
    qed
  qed
  with main show ?thesis by simp
qed

text \<open>
  Claim C1 asks for the round trip on every non-empty value. A value with the two
  characters backslash and \<open>n\<close> comes back with a newline in their place, and a value
  with a leading blank comes back without it.
\<close>

theorem round_trip_counterexample:
  "fields_of (map_of [(''autor'', Some [CHR ''a'', CHR 0x5C, CHR ''n'', CHR ''b'']), (''reu'', Some '' ACME''),
       (''assunto_principal'', None), (''tipo_decisao'', None), (''resultado'', None),
       (''resumo_5_linhas'', None), (''data_decisao'', None), (''tribunal'', None)])
     = [Some (Some [CHR ''a'', CHR 0x5C, CHR ''n'', CHR ''b'']), Some (Some '' ACME''), Some None, Some None,
        Some None, Some None, Some None, Some None]
   \<and> map_option fields_of (parse_csv_output (dict_to_csv_line
      (map_of [(''autor'', Some [CHR ''a'', CHR 0x5C, CHR ''n'', CHR ''b'']), (''reu'', Some '' ACME''),
       (''assunto_principal'', None), (''tipo_decisao'', None), (''resultado'', None),
       (''resumo_5_linhas'', None), (''data_decisao'', None), (''tribunal'', None)])))
     = Some [Some (Some ''a\<newline>b''), Some (Some ''ACME''), Some None, Some None,
             Some None, Some None, Some None, Some None]"
  by code_simp

text \<open>A comma, quotes and an embedded newline.\<close>

theorem csv_round_trip_witness:
  "parse_csv_output (dict_to_csv_line
      (map_of [(''autor'', Some ''Doe, John''), (''reu'', Some ''ACME \"Corp\"''),
       (''assunto_principal'', None), (''tipo_decisao'', None), (''resultado'', None),
       (''resumo_5_linhas'', Some ''first line\<newline>second, last line''), (''data_decisao'', None),
       (''tribunal'', None)]))
   = Some (map_of [(''autor'', Some ''Doe, John''), (''reu'', Some ''ACME \"Corp\"''),
       (''assunto_principal'', None), (''tipo_decisao'', None), (''resultado'', None),
       (''resumo_5_linhas'', Some ''first line\<newline>second, last line''), (''data_decisao'', None),
       (''tribunal'', None)])"
proof -
  let ?d = "map_of [(''autor'', Some ''Doe, John''), (''reu'', Some ''ACME \"Corp\"''),
       (''assunto_principal'', None), (''tipo_decisao'', None), (''resultado'', None),
       (''resumo_5_linhas'', Some ''first line\<newline>second, last line''), (''data_decisao'', None),
       (''tribunal'', None)]"
  have h: "\<forall>k \<in> set CSV_FIELDS. \<forall>v. dict_get ?d k = Some v \<longrightarrow> wire_safe v"
    by (simp add: CSV_FIELDS_def dict_get_def wire_safe_def edge_ok_def py_isspace_def py_count_def)
  have dm: "dom ?d = set CSV_FIELDS"
    by (auto simp: CSV_FIELDS_def dom_def)
  from csv_round_trip[OF h] dm show ?thesis by blast
qed

end
